theory Spec2Isabelle
  imports Complex_Main "HOL-Library.AList"
begin

section \<open>Typefont: the symbol matching pipeline\<close>

text \<open>
  A shallow embedding of the Typefont modules: the glyph extractor and domain reducer of
  the main module, the two comparison modules, the promise-based aggregation and corpus
  matching of the main module, and the font storage.

  Conventions of the embedding.
  \<^item> A JavaScript object used as a dictionary is an association list in property order;
    reading a property is \<open>map_of\<close>, the assignment \<open>o[k] = v\<close> is \<open>AList.update\<close>
    (a present key keeps its place, a new key goes last) and \<open>delete o[k]\<close> is
    \<open>AList.delete\<close>. Only own properties are modelled: the labels are the single characters
    the recogniser and the font files use, none of which names a property of
    \<open>Object.prototype\<close>.
  \<^item> A JavaScript number is a \<open>real\<close>; the one non-number the pipeline can compute, the
    quotient \<open>0 / 0\<close>, is the value \<open>NaN\<close> of the type \<open>jsnum\<close>.
  \<^item> A promise is its state: pending, resolved with a value or rejected with an error.
    Settling a promise that is already settled does nothing.
  \<^item> An image surface, the OCR engine, the network and the pixel diff of Jimp are
    parameters of the functions that call them.
\<close>

type_synonym label = string
type_synonym glyph = string
type_synonym glyphset = "(label \<times> glyph) list"

datatype error = Message string | TypeError

datatype jsnum = Num real | NaN

datatype 'a promise = Pending | Resolved 'a | Rejected error

definition resolve :: "'a \<Rightarrow> 'a promise \<Rightarrow> 'a promise" where
  "resolve v p = (case p of Pending \<Rightarrow> Resolved v | Resolved w \<Rightarrow> Resolved w | Rejected e \<Rightarrow> Rejected e)"

definition reject :: "error \<Rightarrow> 'a promise \<Rightarrow> 'a promise" where
  "reject e p = (case p of Pending \<Rightarrow> Rejected e | Resolved w \<Rightarrow> Resolved w | Rejected d \<Rightarrow> Rejected d)"

text \<open>The truth value JavaScript gives to the result of reading a glyph: an absent
  property reads as \<open>undefined\<close>, which is falsy, and so is the empty string.\<close>

definition truthy :: "glyph option \<Rightarrow> bool" where
  "truthy v = (case v of None \<Rightarrow> False | Some s \<Rightarrow> s \<noteq> [])"

subsection \<open>GlyphExtractor: \<open>_symbolsToBase64\<close> and \<open>ImageDrawing.crop\<close>\<close>

record bbox =
  x0 :: int
  y0 :: int
  x1 :: int
  y1 :: int

record symbol =
  symbol_text :: label
  confidence :: real
  symbol_bbox :: bbox

text \<open>\<open>crop (x, y, width, height)\<close> reads the rectangle at \<open>(x, y)\<close> of size
  \<open>(width - x, height - y)\<close> from the canvas and returns it encoded. The canvas calls
  (\<open>getImageData\<close>, \<open>putImageData\<close>, \<open>toDataURL\<close>) are the parameter \<open>img\<close>.\<close>

definition crop :: "(int \<Rightarrow> int \<Rightarrow> int \<Rightarrow> int \<Rightarrow> glyph) \<Rightarrow> int \<Rightarrow> int \<Rightarrow> int \<Rightarrow> int \<Rightarrow> glyph" where
  "crop img x y width height = img x y (width - x) (height - y)"

text \<open>The option \<open>minSymbolConfidence\<close> is \<open>None\<close> when the caller leaves it out; the
  destructuring default is 15.\<close>

definition minSymbolConfidence :: "real option \<Rightarrow> real" where
  "minSymbolConfidence opt = (case opt of None \<Rightarrow> 15 | Some c \<Rightarrow> c)"

definition symbolsToBase64 ::
  "(int \<Rightarrow> int \<Rightarrow> int \<Rightarrow> int \<Rightarrow> glyph) \<Rightarrow> symbol list \<Rightarrow> real option \<Rightarrow> glyphset" where
  "symbolsToBase64 img symbols opt =
     fold (\<lambda>symbol data.
           if confidence symbol \<ge> minSymbolConfidence opt
           then AList.update (symbol_text symbol)
                  (crop img (x0 (symbol_bbox symbol)) (y0 (symbol_bbox symbol))
                            (x1 (symbol_bbox symbol)) (y1 (symbol_bbox symbol))) data
           else data) symbols []"

text \<open>For stating what the extractor keeps: the crop of one detected symbol, and the
  occurrences of a label that pass the threshold, in input order.\<close>

definition cropSymbol :: "(int \<Rightarrow> int \<Rightarrow> int \<Rightarrow> int \<Rightarrow> glyph) \<Rightarrow> symbol \<Rightarrow> glyph" where
  "cropSymbol img s =
     crop img (x0 (symbol_bbox s)) (y0 (symbol_bbox s)) (x1 (symbol_bbox s)) (y1 (symbol_bbox s))"

definition accepted :: "real \<Rightarrow> label \<Rightarrow> symbol list \<Rightarrow> symbol list" where
  "accepted thr k symbols = filter (\<lambda>s. symbol_text s = k \<and> confidence s \<ge> thr) symbols"

subsection \<open>DomainReducer: \<open>_symbolsToDomain\<close>\<close>

text \<open>Both loops run over the keys the object has when the loop starts and delete only
  the key in hand; the second loop reads the first object as the first loop left it. The
  function mutates both arguments and returns nothing: the model returns the two objects
  as they are afterwards.\<close>

definition symbolsToDomain :: "glyphset \<Rightarrow> glyphset \<Rightarrow> glyphset \<times> glyphset" where
  "symbolsToDomain first second =
     (let first' = fold (\<lambda>key f. if \<not> truthy (map_of second key) then AList.delete key f else f)
                     (map fst first) first;
          second' = fold (\<lambda>key s. if \<not> truthy (map_of first' key) then AList.delete key s else s)
                     (map fst second) second
      in (first', second'))"

text \<open>A glyph set as the pipeline builds it: every glyph is a data URL, hence a non-empty
  string (\<open>crop\<close> returns \<open>canvas.toDataURL()\<close>, and \<open>prepareFont\<close> prefixes
  every glyph of a font with \<open>data:image/png;base64,\<close>).\<close>

definition glyphSet :: "glyphset \<Rightarrow> bool" where
  "glyphSet g = list_all (\<lambda>(k, v). v \<noteq> []) g"

subsection \<open>ShapePerception\<close>

text \<open>A loaded \<open>ImageDrawing\<close>: the canvas size and the RGBA bytes that
  \<open>getImageData(0, 0, width, height).data\<close> returns, row by row.\<close>

record imageDrawing =
  canvas_width :: nat
  canvas_height :: nat
  canvas_data :: "nat list"

definition canvas :: "imageDrawing \<Rightarrow> bool" where
  "canvas img = (length (canvas_data img) = 4 * canvas_width img * canvas_height img)"

text \<open>The loop of \<open>_getBinarizedMatrix\<close>: \<open>i\<close> walks the bytes four at a time, \<open>w\<close> is
  the column, \<open>j\<close> the row. \<open>matrix[j].push\<close> on a row that does not exist throws.\<close>

function binarizedMatrix_loop ::
  "nat \<Rightarrow> nat list \<Rightarrow> nat \<Rightarrow> nat \<Rightarrow> nat \<Rightarrow> nat list list \<Rightarrow> error + nat list list" where
  "binarizedMatrix_loop width data i w j matrix =
     (if i < length data then
        (let w1 = (if w = width then 0 else w);
             j1 = (if w = width then j + 1 else j);
             matrix1 = (if w1 = 0 then matrix @ [[]] else matrix)
         in if j1 < length matrix1
            then binarizedMatrix_loop width data (i + 4) (w1 + 1) j1
                   (matrix1[j1 := matrix1 ! j1 @ [if data ! i = 255 then 1 else 0]])
            else Inl TypeError)
      else Inr matrix)"
  by pat_completeness auto
termination
  by (relation "measure (\<lambda>(width, data, i, w, j, matrix). length data - i)") auto

declare binarizedMatrix_loop.simps [simp del]

definition getBinarizedMatrix :: "imageDrawing \<Rightarrow> error + nat list list" where
  "getBinarizedMatrix img = binarizedMatrix_loop (canvas_width img) (canvas_data img) 0 0 0 []"

text \<open>Reading \<open>matrix[i][j]\<close> inside row \<open>i\<close>: past the end of the row the value is
  \<open>undefined\<close> (\<open>None\<close>).\<close>

definition cell :: "nat list \<Rightarrow> nat \<Rightarrow> nat option" where
  "cell row j = (if j < length row then Some (row ! j) else None)"

text \<open>The two nested loops of \<open>_compare\<close>. \<open>matrix1[i]\<close> past the last row is
  \<open>undefined\<close>, and reading its \<open>[j]\<close> throws.\<close>

definition distance_step ::
  "nat list list \<Rightarrow> nat list list \<Rightarrow> nat \<Rightarrow> nat \<Rightarrow> error + nat \<Rightarrow> error + nat" where
  "distance_step matrix matrix1 i j acc =
     (case acc of
        Inl e \<Rightarrow> Inl e
      | Inr d \<Rightarrow>
          if i < length matrix1
          then Inr (if cell (matrix ! i) j \<noteq> cell (matrix1 ! i) j then d + 1 else d)
          else Inl TypeError)"

definition distance :: "nat list list \<Rightarrow> nat list list \<Rightarrow> nat \<Rightarrow> nat \<Rightarrow> error + nat" where
  "distance matrix matrix1 r c =
     fold (\<lambda>i acc. fold (\<lambda>j acc. distance_step matrix matrix1 i j acc) [0..<c] acc) [0..<r] (Inr 0)"

text \<open>\<open>matrix[0].length\<close> throws when the matrix has no row. The quotient
  \<open>dist / (r * c)\<close> is \<open>0 / 0\<close> when \<open>c\<close> is 0, since the loops then never count
  (the counter \<open>dist\<close> of the source is \<open>d\<close> here).\<close>

definition similarity_of_matrices :: "nat list list \<Rightarrow> nat list list \<Rightarrow> error + jsnum" where
  "similarity_of_matrices matrix matrix1 =
     (case matrix of
        [] \<Rightarrow> Inl TypeError
      | row0 # rest \<Rightarrow>
          (let r = length matrix; c = length row0
           in case distance matrix matrix1 r c of
                Inl e \<Rightarrow> Inl e
              | Inr d \<Rightarrow>
                  Inr (if r * c = 0 then NaN
                       else Num (100 - (real d / real (r * c) * 100)))))"

text \<open>\<open>_compare\<close> of ShapePerception, given how \<open>_prepareImages\<close> settled: rejected
  with an error, or resolved with the two drawn images. An exception in the callback
  rejects the promise.\<close>

definition ShapePerception_compare :: "error + imageDrawing \<times> imageDrawing \<Rightarrow> jsnum promise" where
  "ShapePerception_compare prepared =
     (case prepared of
        Inl e \<Rightarrow> Rejected e
      | Inr (img, img1) \<Rightarrow>
          (case getBinarizedMatrix img of
             Inl e \<Rightarrow> Rejected e
           | Inr matrix \<Rightarrow>
               (case getBinarizedMatrix img1 of
                  Inl e \<Rightarrow> Rejected e
                | Inr matrix1 \<Rightarrow>
                    (case similarity_of_matrices matrix matrix1 of
                       Inl e \<Rightarrow> Rejected e
                     | Inr v \<Rightarrow> Resolved v))))"

text \<open>The Hamming distance in the words of the specification: the number of positions
  of an \<open>r\<close> by \<open>c\<close> grid at which two matrices disagree.\<close>

definition hammingDistance :: "nat list list \<Rightarrow> nat list list \<Rightarrow> nat \<Rightarrow> nat \<Rightarrow> nat" where
  "hammingDistance m m1 r c =
     length (filter (\<lambda>(i, j). m ! i ! j \<noteq> m1 ! i ! j) (List.product [0..<r] [0..<c]))"

subsection \<open>AnalyticPerception\<close>

datatype source = Url string | Buffer string

text \<open>The part of Jimp the module calls, and \<open>atob\<close>, as parameters.\<close>

record 'img jimp =
  jimp_read :: "source \<Rightarrow> error + 'img"
  jimp_resize :: "nat \<Rightarrow> nat \<Rightarrow> 'img \<Rightarrow> 'img"
  jimp_diff_percent :: "'img \<Rightarrow> 'img \<Rightarrow> real \<Rightarrow> error + real"
  atob :: "string \<Rightarrow> string"

record analyticOptions =
  analyticComparisonThreshold :: "real option"
  analyticComparisonScaleToSameSize :: "bool option"
  analyticComparisonSize :: "nat option"

text \<open>\<open>!s.indexOf("data:image/png")\<close> holds exactly when \<open>s\<close> starts with that text;
  \<open>substr(22)\<close> drops the 22 characters of \<open>data:image/png;base64,\<close>.\<close>

definition toSource :: "'img jimp \<Rightarrow> string \<Rightarrow> source" where
  "toSource J s = (if take 14 s = ''data:image/png'' then Buffer (atob J (drop 22 s)) else Url s)"

definition AnalyticPerception_compare ::
  "'img jimp \<Rightarrow> string \<Rightarrow> string \<Rightarrow> analyticOptions \<Rightarrow> real promise" where
  "AnalyticPerception_compare J first second options =
     (let threshold = (case analyticComparisonThreshold options of None \<Rightarrow> 0.5 | Some t \<Rightarrow> t);
          scale = (case analyticComparisonScaleToSameSize options of None \<Rightarrow> False | Some b \<Rightarrow> b);
          sz = (case analyticComparisonSize options of None \<Rightarrow> 128 | Some n \<Rightarrow> n)
      in case jimp_read J (toSource J first) of
           Inl e \<Rightarrow> Rejected e
         | Inr img \<Rightarrow>
             (case jimp_read J (toSource J second) of
                Inl e \<Rightarrow> Rejected e
              | Inr img1 \<Rightarrow>
                  (let a = (if scale then jimp_resize J sz sz img else img);
                       b = (if scale then jimp_resize J sz sz img1 else img1)
                   in case jimp_diff_percent J a b threshold of
                        Inl e \<Rightarrow> Rejected e
                      | Inr percent \<Rightarrow> Resolved (100 - (percent * 100)))))"

subsection \<open>ComparisonAggregator: \<open>_compare\<close> and \<open>_average\<close> of the main module\<close>

record score =
  analytic :: real
  shape :: real

type_synonym aggregate = "(label \<times> score) list"

text \<open>\<open>_average\<close>: the loop adds one term per symbol and counts the symbols; the
  quotient is \<open>0 / 0\<close> for an object with no symbol.\<close>

definition average :: "aggregate \<Rightarrow> jsnum" where
  "average res =
     (let calc = fold (\<lambda>(symbol, r) calc. calc + (analytic r + shape r) / 2) res 0;
          ll = fold (\<lambda>(symbol, r) ll. ll + 1) res (0::nat)
      in if ll = 0 then NaN else Num (calc / real ll))"

text \<open>How the two comparator promises of one glyph pair settle, once they do, and, when
  both reject, whether the rejection of ShapePerception is the first that
  \<open>Promise.all\<close> sees.\<close>

record perception =
  analyticPerception :: "glyph \<Rightarrow> glyph \<Rightarrow> error + real"
  shapePerception :: "glyph \<Rightarrow> glyph \<Rightarrow> error + real"
  shapeRejectsFirst :: "glyph \<Rightarrow> glyph \<Rightarrow> bool"

definition promiseAll2 :: "bool \<Rightarrow> error + 'a \<Rightarrow> error + 'b \<Rightarrow> error + 'a \<times> 'b" where
  "promiseAll2 secondFirst a b =
     (case a of
        Inr x \<Rightarrow> (case b of Inr y \<Rightarrow> Inr (x, y) | Inl e \<Rightarrow> Inl e)
      | Inl e \<Rightarrow> (case b of Inr y \<Rightarrow> Inl e | Inl e' \<Rightarrow> Inl (if secondFirst then e' else e)))"

text \<open>The closure of one call of \<open>_compare\<close>: the constants \<open>todo\<close> and \<open>result\<close>, the
  counter \<open>done\<close>, the promise it returned, and the glyph pairs whose two comparators
  are still running.\<close>

record compareState =
  c_todo :: nat
  c_done :: nat
  c_result :: aggregate
  c_pending :: "(label \<times> glyph \<times> glyph) list"
  c_promise :: "aggregate promise"

text \<open>The \<open>for\<close> loop of the executor starts the comparators of every symbol of
  \<open>first\<close>. AnalyticPerception calls \<open>second.indexOf\<close> at once, so a symbol that
  \<open>second\<close> lacks makes the executor throw: the loop stops there and the promise is
  rejected.\<close>

fun compare_issue :: "glyphset \<Rightarrow> glyphset \<Rightarrow> (label \<times> glyph \<times> glyph) list \<times> error option" where
  "compare_issue [] second = ([], None)"
| "compare_issue ((symbol, g) # first) second =
     (case map_of second symbol of
        None \<Rightarrow> ([], Some TypeError)
      | Some g1 \<Rightarrow> (case compare_issue first second of (pending, thrown) \<Rightarrow> ((symbol, g, g1) # pending, thrown)))"

definition compare_start :: "glyphset \<Rightarrow> glyphset \<Rightarrow> compareState" where
  "compare_start first second =
     (case compare_issue first second of
        (pending, thrown) \<Rightarrow>
          \<lparr>c_todo = length first, c_done = 0, c_result = [], c_pending = pending,
           c_promise = (case thrown of None \<Rightarrow> Pending | Some e \<Rightarrow> Rejected e)\<rparr>)"

definition compare_finalize :: "label \<Rightarrow> score \<Rightarrow> compareState \<Rightarrow> compareState" where
  "compare_finalize symbol res st =
     (let done = c_done st + 1;
          result = AList.update symbol res (c_result st)
      in st\<lparr>c_done := done, c_result := result,
            c_promise := (if done = c_todo st then resolve result (c_promise st) else c_promise st)\<rparr>)"

text \<open>One event: the \<open>Promise.all\<close> of a symbol settles and its callback runs, either
  \<open>finalize\<close> or \<open>reject\<close>. A symbol with nothing running is no event.\<close>

definition compare_settle :: "perception \<Rightarrow> label \<Rightarrow> compareState \<Rightarrow> compareState" where
  "compare_settle P symbol st =
     (case map_of (c_pending st) symbol of
        None \<Rightarrow> st
      | Some (g, g1) \<Rightarrow>
          (let st1 = st\<lparr>c_pending := AList.delete symbol (c_pending st)\<rparr>
           in case promiseAll2 (shapeRejectsFirst P g g1) (analyticPerception P g g1) (shapePerception P g g1) of
                Inr (a, s) \<Rightarrow> compare_finalize symbol \<lparr>analytic = a, shape = s\<rparr> st1
              | Inl e \<Rightarrow> st1\<lparr>c_promise := reject e (c_promise st1)\<rparr>))"

definition compare_run :: "perception \<Rightarrow> compareState \<Rightarrow> label list \<Rightarrow> compareState" where
  "compare_run P st sched = fold (compare_settle P) sched st"

definition comparison_fails :: "perception \<Rightarrow> glyph \<Rightarrow> glyph \<Rightarrow> bool" where
  "comparison_fails P g g1 = (isl (analyticPerception P g g1) \<or> isl (shapePerception P g g1))"

subsection \<open>CorpusMatcher: \<open>_recognize\<close> of the main module\<close>

text \<open>A font as \<open>prepareFont\<close> delivers it: the \<open>meta\<close> object, which a font file
  may leave out, and the \<open>alpha\<close> object. Of \<open>meta\<close> the model keeps \<open>name\<close> and the
  keys that pass through.\<close>

record fontMeta =
  meta_name :: "string option"
  meta_other :: "(string \<times> string) list"

record fontData =
  meta :: "fontMeta option"
  alpha :: glyphset

record fontScore =
  similarity :: jsnum
  font_name :: string
  other :: "(string \<times> string) list"

text \<open>\<open>result.sort((a, b) => b.similarity - a.similarity)\<close>. The built-in sort is
  stable, and on a comparator that is an order every stable sort returns the same array;
  the model computes it by insertion. \<open>b\<close> goes before \<open>a\<close> when the comparator is
  positive, which it is not when either similarity is \<open>NaN\<close>.\<close>

definition comparator_positive :: "fontScore \<Rightarrow> fontScore \<Rightarrow> bool" where
  "comparator_positive a b =
     (case similarity b of
        NaN \<Rightarrow> False
      | Num y \<Rightarrow> (case similarity a of NaN \<Rightarrow> False | Num x \<Rightarrow> y - x > 0))"

fun sort_insert :: "fontScore \<Rightarrow> fontScore list \<Rightarrow> fontScore list" where
  "sort_insert a [] = [a]"
| "sort_insert a (b # bs) = (if comparator_positive a b then b # sort_insert a bs else a # b # bs)"

definition sort_by_similarity :: "fontScore list \<Rightarrow> fontScore list" where
  "sort_by_similarity result = foldr sort_insert result []"

text \<open>What \<open>_recognize\<close> gets from outside once \<open>_prepare\<close> has resolved: the font
  index, how the call of \<open>prepareFont\<close> for the font at each position of the index
  settles, the comparators, and whether the caller passed a \<open>progress\<close> callback.\<close>

record corpus =
  fonts :: "string list"
  preparedFont :: "nat \<Rightarrow> error + fontData"
  perceptions :: perception
  hasProgress :: bool

text \<open>What has happened to the font at one position of the index: its request is
  still out, the request was rejected, or \<open>_compare\<close> was called for it.\<close>

datatype fontStatus = Fetching | FetchFailed | Comparing compareState fontData

text \<open>The closure of \<open>_recognize\<close>: the recognized glyph set \<open>symbols\<close> (the field
  \<open>r_symbols\<close>), which every
  font's callback passes to \<open>_symbolsToDomain\<close>, the array \<open>result\<close>, the counter
  \<open>done\<close>, the promise, and the calls of \<open>progress\<close> made so far, each with its three
  arguments.\<close>

record recognizeState =
  r_symbols :: glyphset
  r_done :: nat
  r_result :: "fontScore list"
  r_progress :: "(string \<times> aggregate \<times> real) list"
  r_fonts :: "fontStatus list"
  r_promise :: "fontScore list promise"

definition recognize_start :: "corpus \<Rightarrow> glyphset \<Rightarrow> recognizeState" where
  "recognize_start E recognized =
     \<lparr>r_symbols = recognized, r_done = 0, r_result = [], r_progress = [],
      r_fonts = replicate (length (fonts E)) Fetching, r_promise = Pending\<rparr>"

text \<open>\<open>finalize (name, val, font)\<close> of \<open>_recognize\<close>. Its first three statements make
  the object it pushes on \<open>result\<close>: the font's \<open>meta\<close>, or a new object when the font
  has none, with \<open>similarity\<close> set to the average and \<open>name\<close> set to the name of the
  font in the index unless \<open>meta\<close> has a non-empty name of its own.\<close>

definition finalize_meta :: "string \<Rightarrow> aggregate \<Rightarrow> fontData \<Rightarrow> fontScore" where
  "finalize_meta name val font =
     (let m = (case meta font of None \<Rightarrow> \<lparr>meta_name = None, meta_other = []\<rparr> | Some m \<Rightarrow> m)
      in \<lparr>similarity = average val,
          font_name = (case meta_name m of None \<Rightarrow> name | Some n \<Rightarrow> if n = [] then name else n),
          other = meta_other m\<rparr>)"

text \<open>The rest: push, call \<open>progress\<close> with \<open>done / todo\<close>, then increment \<open>done\<close>
  and, when it has reached \<open>todo\<close>, sort and resolve.\<close>

definition recognize_finalize ::
  "corpus \<Rightarrow> string \<Rightarrow> aggregate \<Rightarrow> fontData \<Rightarrow> recognizeState \<Rightarrow> recognizeState" where
  "recognize_finalize E name val font st =
     (let todo = length (fonts E);
          result = r_result st @ [finalize_meta name val font];
          calls = (if hasProgress E
                   then r_progress st @ [(name, val, real (r_done st) / real todo)]
                   else r_progress st);
          done = r_done st + 1
      in if done = todo
         then st\<lparr>r_done := done, r_result := sort_by_similarity result, r_progress := calls,
                 r_promise := resolve (sort_by_similarity result) (r_promise st)\<rparr>
         else st\<lparr>r_done := done, r_result := result, r_progress := calls\<rparr>)"

text \<open>The events of a run. \<open>FontSettled i\<close>: the promise of \<open>prepareFont\<close> for the
  font at position \<open>i\<close> settles and its callback runs, reducing the domain and calling
  \<open>_compare\<close>. \<open>SymbolSettled i symbol\<close>: in the \<open>_compare\<close> of font \<open>i\<close> the
  comparators of \<open>symbol\<close> settle; when that settles the promise of \<open>_compare\<close>, the
  callback that \<open>_recognize\<close> attached to it runs as part of the same event. Callbacks
  run one at a time, in any order; an event that has nothing to settle changes
  nothing.\<close>

datatype event = FontSettled nat | SymbolSettled nat label

definition font_settled :: "corpus \<Rightarrow> nat \<Rightarrow> recognizeState \<Rightarrow> recognizeState" where
  "font_settled E i st =
     (if i < length (r_fonts st) \<and> r_fonts st ! i = Fetching
      then (case preparedFont E i of
              Inl e \<Rightarrow> st\<lparr>r_fonts := (r_fonts st)[i := FetchFailed], r_promise := reject e (r_promise st)\<rparr>
            | Inr font \<Rightarrow>
                (case symbolsToDomain (r_symbols st) (alpha font) of
                   (symbols1, alpha1) \<Rightarrow>
                     (let cs = compare_start symbols1 alpha1
                      in st\<lparr>r_symbols := symbols1,
                            r_fonts := (r_fonts st)[i := Comparing cs (font\<lparr>alpha := alpha1\<rparr>)],
                            r_promise := (case c_promise cs of
                                            Rejected e \<Rightarrow> reject e (r_promise st)
                                          | Pending \<Rightarrow> r_promise st
                                          | Resolved fin \<Rightarrow> r_promise st)\<rparr>)))
      else st)"

definition symbol_settled :: "corpus \<Rightarrow> nat \<Rightarrow> label \<Rightarrow> recognizeState \<Rightarrow> recognizeState" where
  "symbol_settled E i symbol st =
     (if i < length (r_fonts st)
      then (case r_fonts st ! i of
              Fetching \<Rightarrow> st
            | FetchFailed \<Rightarrow> st
            | Comparing cs font \<Rightarrow>
                (let cs1 = compare_settle (perceptions E) symbol cs;
                     st1 = st\<lparr>r_fonts := (r_fonts st)[i := Comparing cs1 font]\<rparr>
                 in case c_promise cs of
                      Pending \<Rightarrow>
                        (case c_promise cs1 of
                           Pending \<Rightarrow> st1
                         | Resolved fin \<Rightarrow> recognize_finalize E (fonts E ! i) fin font st1
                         | Rejected e \<Rightarrow> st1\<lparr>r_promise := reject e (r_promise st1)\<rparr>)
                    | Resolved fin \<Rightarrow> st1
                    | Rejected e \<Rightarrow> st1))
      else st)"

fun recognize_step :: "corpus \<Rightarrow> event \<Rightarrow> recognizeState \<Rightarrow> recognizeState" where
  "recognize_step E (FontSettled i) st = font_settled E i st"
| "recognize_step E (SymbolSettled i symbol) st = symbol_settled E i symbol st"

definition recognize_run :: "corpus \<Rightarrow> glyphset \<Rightarrow> event list \<Rightarrow> recognizeState" where
  "recognize_run E recognized sched = fold (recognize_step E) sched (recognize_start E recognized)"

text \<open>The domain \<open>_compare\<close> was called on for the font at position \<open>i\<close>: the number of
  symbols it set out to compare, if it has been called.\<close>

definition compared_domain_size :: "recognizeState \<Rightarrow> nat \<Rightarrow> nat option" where
  "compared_domain_size st i =
     (if i < length (r_fonts st)
      then (case r_fonts st ! i of
              Fetching \<Rightarrow> None
            | FetchFailed \<Rightarrow> None
            | Comparing cs font \<Rightarrow> Some (c_todo cs))
      else None)"

subsection \<open>FontStorage\<close>

datatype json =
    JNull | JBool bool | JNumber real | JString string | JArray "json list"
  | JObject "(string \<times> json) list"

text \<open>How the request ends: \<open>onload\<close> with a status and a response text, \<open>onerror\<close>,
  \<open>onabort\<close>, or the timeout, for which \<open>_fetch\<close> sets no handler.\<close>

datatype xhr = OnLoad nat string | OnError | OnAbort | OnTimeout

text \<open>The object \<open>_fetch\<close> resolves with; \<open>content\<close> is \<open>None\<close> when the property
  was never assigned.\<close>

record fetchResult =
  exists :: bool
  content :: "json option"

text \<open>\<open>JSON.parse\<close> is a parameter, \<open>None\<close> when it throws. After a parse failure the
  handler calls \<open>reject\<close> and then \<open>resolve\<close>, which finds the promise settled.\<close>

definition fetch :: "(string \<Rightarrow> json option) \<Rightarrow> string \<Rightarrow> xhr \<Rightarrow> fetchResult promise" where
  "fetch parse url ev =
     (case ev of
        OnLoad status responseText \<Rightarrow>
          (if status \<noteq> 404
           then (case parse responseText of
                   Some c \<Rightarrow> resolve \<lparr>exists = True, content = Some c\<rparr> Pending
                 | None \<Rightarrow>
                     resolve \<lparr>exists = True, content = None\<rparr>
                       (reject (Message (''Unable to parse '' @ url @ '' content'')) Pending))
           else resolve \<lparr>exists = False, content = None\<rparr> Pending)
      | OnError \<Rightarrow> reject (Message (''Unable to open '' @ url)) Pending
      | OnAbort \<Rightarrow> reject (Message (''Unable to open '' @ url)) Pending
      | OnTimeout \<Rightarrow> Pending)"

text \<open>Reading a property \<open>v.key\<close> where \<open>v\<close> is \<open>undefined\<close> (\<open>None\<close>) or \<open>null\<close> throws
  a TypeError. An object gives the property or \<open>undefined\<close>; a boolean, number, string or
  array has none of the properties \<open>index\<close>, \<open>alpha\<close>, \<open>meta\<close> the module reads.\<close>

definition property :: "json option \<Rightarrow> string \<Rightarrow> error + json option" where
  "property v key =
     (case v of
        None \<Rightarrow> Inl TypeError
      | Some JNull \<Rightarrow> Inl TypeError
      | Some (JObject kvs) \<Rightarrow> Inr (map_of kvs key)
      | Some (JBool b) \<Rightarrow> Inr None
      | Some (JNumber n) \<Rightarrow> Inr None
      | Some (JString s) \<Rightarrow> Inr None
      | Some (JArray xs) \<Rightarrow> Inr None)"

definition isArray :: "json option \<Rightarrow> bool" where
  "isArray v = (case v of Some (JArray xs) \<Rightarrow> True | _ \<Rightarrow> False)"

definition index_format_error :: "string \<Rightarrow> error" where
  "index_format_error url =
     Message (''The JSON structure of '' @ url @ '' does not meet the established format for the fonts index'')"

definition font_format_error :: "string \<Rightarrow> error" where
  "font_format_error url =
     Message (''The JSON structure of '' @ url @ '' does not meet the established format for a font data file'')"

text \<open>\<open>_prepareFontsIndex\<close>: the callback runs when \<open>_fetch\<close> resolves; an exception in
  it, like a rejection of \<open>_fetch\<close>, reaches \<open>catch (reject)\<close>.\<close>

definition prepareFontsIndex :: "(string \<Rightarrow> json option) \<Rightarrow> string \<Rightarrow> xhr \<Rightarrow> json promise" where
  "prepareFontsIndex parse url ev =
     (case fetch parse url ev of
        Pending \<Rightarrow> Pending
      | Rejected e \<Rightarrow> Rejected e
      | Resolved res \<Rightarrow>
          (case property (content res) ''index'' of
             Inl e \<Rightarrow> Rejected e
           | Inr index \<Rightarrow>
               (case content res of
                  None \<Rightarrow> Rejected TypeError
                | Some c \<Rightarrow> if isArray index then Resolved c else Rejected (index_format_error url))))"

text \<open>The truth value of a JSON value, for \<open>if (alpha)\<close>.\<close>

definition json_truthy :: "json option \<Rightarrow> bool" where
  "json_truthy v =
     (case v of
        None \<Rightarrow> False
      | Some JNull \<Rightarrow> False
      | Some (JBool b) \<Rightarrow> b
      | Some (JNumber n) \<Rightarrow> n \<noteq> 0
      | Some (JString s) \<Rightarrow> s \<noteq> []
      | Some (JArray xs) \<Rightarrow> True
      | Some (JObject kvs) \<Rightarrow> True)"

text \<open>The loop of \<open>_prepareFont\<close> over \<open>alpha\<close>: it replaces every property of an object
  and every element of an array by the prefixed text; a true boolean or a number has
  nothing to loop over; assigning to a character of a string throws in module code. The
  conversion of a JSON value to text by the template literal is the parameter
  \<open>toText\<close>.\<close>

definition prefix_alpha :: "(json \<Rightarrow> string) \<Rightarrow> json \<Rightarrow> error + json" where
  "prefix_alpha toText a =
     (case a of
        JObject kvs \<Rightarrow> Inr (JObject (map (\<lambda>(symbol, v). (symbol, JString (''data:image/png;base64,'' @ toText v))) kvs))
      | JArray xs \<Rightarrow> Inr (JArray (map (\<lambda>v. JString (''data:image/png;base64,'' @ toText v)) xs))
      | JString s \<Rightarrow> (if s = [] then Inr (JString s) else Inl TypeError)
      | JBool b \<Rightarrow> Inr (JBool b)
      | JNumber n \<Rightarrow> Inr (JNumber n)
      | JNull \<Rightarrow> Inr JNull)"

definition prepareFont ::
  "(string \<Rightarrow> json option) \<Rightarrow> (json \<Rightarrow> string) \<Rightarrow> string \<Rightarrow> xhr \<Rightarrow> json promise" where
  "prepareFont parse toText url ev =
     (case fetch parse url ev of
        Pending \<Rightarrow> Pending
      | Rejected e \<Rightarrow> Rejected e
      | Resolved res \<Rightarrow>
          (case property (content res) ''alpha'' of
             Inl e \<Rightarrow> Rejected e
           | Inr a \<Rightarrow>
               (if json_truthy a
                then (case a of
                        None \<Rightarrow> Rejected (font_format_error url)
                      | Some a1 \<Rightarrow>
                          (case prefix_alpha toText a1 of
                             Inl e \<Rightarrow> Rejected e
                           | Inr a2 \<Rightarrow>
                               (case content res of
                                  Some (JObject kvs) \<Rightarrow> Resolved (JObject (AList.update ''alpha'' a2 kvs))
                                | Some c \<Rightarrow> Resolved c
                                | None \<Rightarrow> Rejected TypeError)))
                else Rejected (font_format_error url))))"

subsection \<open>Notions used to state and prove the properties\<close>

text \<open>The loop of \<open>_getBinarizedMatrix\<close> after \<open>k\<close> pixels of a canvas of a positive
  width: nothing yet, or \<open>j\<close> full rows and a last row of \<open>w\<close> cells.\<close>

definition loop_inv :: "nat \<Rightarrow> nat \<Rightarrow> nat \<Rightarrow> nat \<Rightarrow> nat list list \<Rightarrow> bool" where
  "loop_inv width k w j matrix =
     ((k = 0 \<and> w = 0 \<and> j = 0 \<and> matrix = []) \<or>
      (0 < w \<and> w \<le> width \<and> length matrix = j + 1 \<and> (\<forall>t<j. length (matrix ! t) = width)
        \<and> length (matrix ! j) = w \<and> k = j * width + w))"

text \<open>The same loop on any input: no row is ever left empty.\<close>

definition rows_inv :: "nat \<Rightarrow> nat \<Rightarrow> nat list list \<Rightarrow> bool" where
  "rows_inv w j matrix =
     ((matrix = [] \<and> j = 0 \<and> w = 0) \<or>
      (length matrix = j + 1 \<and> 0 < w \<and> [] \<notin> set matrix))"

definition row_distance :: "nat list \<Rightarrow> nat list \<Rightarrow> nat \<Rightarrow> nat" where
  "row_distance row row1 c = length (filter (\<lambda>j. cell row j \<noteq> cell row1 j) [0..<c])"

text \<open>A matrix of \<open>r\<close> rows of \<open>c\<close> cells each.\<close>

definition rectangular :: "nat \<Rightarrow> nat \<Rightarrow> nat list list \<Rightarrow> bool" where
  "rectangular r c m = (length m = r \<and> list_all (\<lambda>row. length row = c) m)"

text \<open>What holds of the closure of a \<open>_compare\<close> call at every moment: the symbols
  counted and the symbols still running are no more than \<open>todo\<close>, and a resolved promise
  means that all were counted and the aggregate is not empty.\<close>

definition cinv :: "compareState \<Rightarrow> bool" where
  "cinv cs = (c_done cs + length (c_pending cs) \<le> c_todo cs
      \<and> (\<forall>fin. c_promise cs = Resolved fin \<longrightarrow> c_done cs = c_todo cs \<and> fin \<noteq> []))"

text \<open>A font is finished when its \<open>_compare\<close> has resolved, which is when \<open>finalize\<close>
  of \<open>_recognize\<close> has run for it.\<close>

definition finished :: "fontStatus \<Rightarrow> bool" where
  "finished fs =
     (case fs of
        Fetching \<Rightarrow> False
      | FetchFailed \<Rightarrow> False
      | Comparing cs font \<Rightarrow>
          (case c_promise cs of Pending \<Rightarrow> False | Resolved fin \<Rightarrow> True | Rejected e \<Rightarrow> False))"

definition font_inv :: "fontStatus \<Rightarrow> bool" where
  "font_inv fs = (case fs of Fetching \<Rightarrow> True | FetchFailed \<Rightarrow> True | Comparing cs font \<Rightarrow> cinv cs)"

definition is_num :: "jsnum \<Rightarrow> bool" where
  "is_num v = (case v of Num x \<Rightarrow> True | NaN \<Rightarrow> False)"

definition num_ge :: "jsnum \<Rightarrow> jsnum \<Rightarrow> bool" where
  "num_ge a b = (case a of NaN \<Rightarrow> False | Num x \<Rightarrow> (case b of NaN \<Rightarrow> False | Num y \<Rightarrow> x \<ge> y))"

text \<open>A result list in descending order of similarity: every entry is at least every
  entry after it.\<close>

definition descending :: "fontScore list \<Rightarrow> bool" where
  "descending res = sorted_wrt (\<lambda>a b. num_ge (similarity a) (similarity b)) res"

text \<open>What holds of the closure of \<open>_recognize\<close> at every moment.\<close>

definition rinv :: "corpus \<Rightarrow> recognizeState \<Rightarrow> bool" where
  "rinv E st =
     (length (r_fonts st) = length (fonts E)
      \<and> list_all font_inv (r_fonts st)
      \<and> r_done st = length (filter finished (r_fonts st))
      \<and> length (r_result st) = r_done st
      \<and> list_all (\<lambda>e. is_num (similarity e)) (r_result st)
      \<and> (\<forall>res. r_promise st = Resolved res \<longrightarrow>
            r_done st = length (fonts E) \<and> res = r_result st \<and> descending res)
      \<and> (hasProgress E \<longrightarrow>
            map (\<lambda>(name, val, fraction). fraction) (r_progress st) =
              map (\<lambda>k. real k / real (length (fonts E))) [0..<r_done st]))"

text \<open>The entries \<open>finalize\<close> has pushed, read off the fonts that are finished, and the
  fonts that have failed: their request was rejected, or their \<open>_compare\<close> was.\<close>

definition entries :: "corpus \<Rightarrow> fontStatus list \<Rightarrow> fontScore set" where
  "entries E fs = {e. \<exists>i cs font fin. i < length fs \<and> fs ! i = Comparing cs font
      \<and> c_promise cs = Resolved fin \<and> e = finalize_meta (fonts E ! i) fin font}"

definition failed :: "fontStatus \<Rightarrow> bool" where
  "failed fs =
     (case fs of
        Fetching \<Rightarrow> False
      | FetchFailed \<Rightarrow> True
      | Comparing cs font \<Rightarrow>
          (case c_promise cs of Pending \<Rightarrow> False | Resolved fin \<Rightarrow> False | Rejected e \<Rightarrow> True))"

definition rinv2 :: "corpus \<Rightarrow> recognizeState \<Rightarrow> bool" where
  "rinv2 E st =
     (set (r_result st) = entries E (r_fonts st)
      \<and> ((\<exists>i < length (r_fonts st). failed (r_fonts st ! i)) \<longrightarrow> (\<exists>e. r_promise st = Rejected e)))"

subsection \<open>Example runs\<close>

text \<open>Comparators that score a glyph pair 100 when the two glyphs are the same data URL and
  0 otherwise, and never fail.\<close>

definition exact_match :: perception where
  "exact_match =
     \<lparr>analyticPerception = (\<lambda>g g1. Inr (if g = g1 then 100 else 0)),
      shapePerception = (\<lambda>g g1. Inr (if g = g1 then 100 else 0)),
      shapeRejectsFirst = (\<lambda>g g1. False)\<rparr>"

text \<open>Scenario C of the specification: the text shows the one symbol \<open>a\<close>; the glyph of
  Font1 is the recognized glyph, the glyph of Font2 is another.\<close>

definition scenario_C :: corpus where
  "scenario_C =
     \<lparr>fonts = [''Font1'', ''Font2''],
      preparedFont = (\<lambda>i.
        if i = 0 then Inr \<lparr>meta = None, alpha = [(''a'', ''data:image/png;base64,AAAA'')]\<rparr>
        else Inr \<lparr>meta = None, alpha = [(''a'', ''data:image/png;base64,BBBB'')]\<rparr>),
      perceptions = exact_match,
      hasProgress = True\<rparr>"

definition scenario_C_recognized :: glyphset where
  "scenario_C_recognized = [(''a'', ''data:image/png;base64,AAAA'')]"

text \<open>A corpus whose first font has the symbol \<open>a\<close> only and whose second font has \<open>a\<close>
  and \<open>b\<close>; the text shows both. The \<open>a\<close> of the second font is the recognized one.\<close>

definition narrow_then_wide :: corpus where
  "narrow_then_wide =
     \<lparr>fonts = [''Narrow'', ''Wide''],
      preparedFont = (\<lambda>i.
        if i = 0 then Inr \<lparr>meta = None, alpha = [(''a'', ''data:image/png;base64,CCCC'')]\<rparr>
        else Inr \<lparr>meta = None, alpha = [(''a'', ''data:image/png;base64,AAAA''),
                                          (''b'', ''data:image/png;base64,DDDD'')]\<rparr>),
      perceptions = exact_match,
      hasProgress = False\<rparr>"

definition text_a_b :: glyphset where
  "text_a_b = [(''a'', ''data:image/png;base64,AAAA''), (''b'', ''data:image/png;base64,BBBB'')]"

text \<open>Comparators of which ShapePerception cannot load its images, a corpus that uses
  them, and a corpus whose second font cannot be opened.\<close>

definition failing_shape :: perception where
  "failing_shape =
     \<lparr>analyticPerception = (\<lambda>g g1. Inr 100),
      shapePerception = (\<lambda>g g1. Inl (Message (''Unable to load '' @ g))),
      shapeRejectsFirst = (\<lambda>g g1. False)\<rparr>"

definition unloadable_glyph :: corpus where
  "unloadable_glyph =
     \<lparr>fonts = [''Font1''],
      preparedFont = (\<lambda>i. Inr \<lparr>meta = None, alpha = [(''a'', ''data:image/png;base64,AAAA'')]\<rparr>),
      perceptions = failing_shape,
      hasProgress = True\<rparr>"

definition missing_font :: corpus where
  "missing_font =
     \<lparr>fonts = [''Font1'', ''Font2''],
      preparedFont = (\<lambda>i.
        if i = 0 then Inr \<lparr>meta = None, alpha = [(''a'', ''data:image/png;base64,AAAA'')]\<rparr>
        else Inl (Message ''Unable to open storage/fonts/Font2/data.json'')),
      perceptions = exact_match,
      hasProgress = True\<rparr>"

section \<open>Properties\<close>

subsection \<open>GlyphExtractor\<close>

lemma extract_fold_lookup:
  "map_of (fold (\<lambda>symbol data.
           if confidence symbol \<ge> thr
           then AList.update (symbol_text symbol) (cropSymbol img symbol) data
           else data) symbols data0) k =
   (if accepted thr k symbols = [] then map_of data0 k
    else Some (cropSymbol img (last (accepted thr k symbols))))"
proof (induction symbols arbitrary: data0)
  case Nil
  show ?case by (simp add: accepted_def)
next
  case (Cons s symbols)
  show ?case
    by (simp add: Cons.IH accepted_def update_conv')
qed

lemma extract_fold_distinct:
  "distinct (map fst data0) \<Longrightarrow>
   distinct (map fst (fold (\<lambda>symbol data.
           if confidence symbol \<ge> thr
           then AList.update (symbol_text symbol) (cropSymbol img symbol) data
           else data) symbols data0))"
  by (induction symbols arbitrary: data0) (simp_all add: distinct_update)

lemma symbolsToBase64_fold:
  "symbolsToBase64 img symbols opt =
     fold (\<lambda>symbol data.
           if confidence symbol \<ge> minSymbolConfidence opt
           then AList.update (symbol_text symbol) (cropSymbol img symbol) data
           else data) symbols []"
  unfolding symbolsToBase64_def cropSymbol_def by (rule refl)

lemma symbolsToBase64_lookup:
  "map_of (symbolsToBase64 img symbols opt) k =
   (if accepted (minSymbolConfidence opt) k symbols = [] then None
    else Some (cropSymbol img (last (accepted (minSymbolConfidence opt) k symbols))))"
  by (simp add: symbolsToBase64_fold extract_fold_lookup)

lemma accepted_empty_iff:
  "accepted thr k symbols = [] \<longleftrightarrow> k \<notin> symbol_text ` {s \<in> set symbols. confidence s \<ge> thr}"
  by (auto simp: accepted_def filter_empty_conv)

lemma symbolsToBase64_keys:
  "set (map fst (symbolsToBase64 img symbols opt)) =
     symbol_text ` {s \<in> set symbols. confidence s \<ge> minSymbolConfidence opt}"
proof -
  have "set (map fst (symbolsToBase64 img symbols opt)) = dom (map_of (symbolsToBase64 img symbols opt))"
    by (simp add: dom_map_of_conv_image_fst)
  also have "\<dots> = {k. accepted (minSymbolConfidence opt) k symbols \<noteq> []}"
    by (auto simp: dom_def symbolsToBase64_lookup)
  also have "\<dots> = symbol_text ` {s \<in> set symbols. confidence s \<ge> minSymbolConfidence opt}"
    by (auto simp: accepted_empty_iff)
  finally show ?thesis .
qed

text \<open>
  Claim C6. For every OCR result and every confidence threshold \<open>thr\<close> the caller passes
  as \<open>minSymbolConfidence\<close>, the glyph set that \<open>_symbolsToBase64\<close> returns has as its
  keys exactly the labels of the detected symbols whose confidence is at least \<open>thr\<close>,
  each key once, and under a label it holds the crop of the last occurrence of that label
  whose confidence is at least \<open>thr\<close>; when the caller passes no threshold the same holds
  with 15; and an empty OCR result gives the empty glyph set.
\<close>

theorem symbolsToBase64_last_write_wins:
  "set (map fst (symbolsToBase64 img symbols (Some thr))) =
     symbol_text ` {s \<in> set symbols. confidence s \<ge> thr}
   \<and> set (map fst (symbolsToBase64 img symbols None)) =
     symbol_text ` {s \<in> set symbols. confidence s \<ge> 15}
   \<and> distinct (map fst (symbolsToBase64 img symbols opt))
   \<and> (\<forall>k. accepted thr k symbols \<noteq> [] \<longrightarrow>
          map_of (symbolsToBase64 img symbols (Some thr)) k =
            Some (cropSymbol img (last (accepted thr k symbols))))
   \<and> (\<forall>k. accepted 15 k symbols \<noteq> [] \<longrightarrow>
          map_of (symbolsToBase64 img symbols None) k =
            Some (cropSymbol img (last (accepted 15 k symbols))))
   \<and> symbolsToBase64 img [] opt = []"
proof (intro conjI allI impI)
  show "set (map fst (symbolsToBase64 img symbols (Some thr))) =
     symbol_text ` {s \<in> set symbols. confidence s \<ge> thr}"
    using symbolsToBase64_keys [of img symbols "Some thr"] by (simp add: minSymbolConfidence_def)
  show "set (map fst (symbolsToBase64 img symbols None)) =
     symbol_text ` {s \<in> set symbols. confidence s \<ge> 15}"
    using symbolsToBase64_keys [of img symbols None] by (simp add: minSymbolConfidence_def)
  show "distinct (map fst (symbolsToBase64 img symbols opt))"
    unfolding symbolsToBase64_fold by (rule extract_fold_distinct) simp
  show "symbolsToBase64 img [] opt = []"
    by (simp add: symbolsToBase64_def)
next
  fix k
  assume "accepted thr k symbols \<noteq> []"
  then show "map_of (symbolsToBase64 img symbols (Some thr)) k =
            Some (cropSymbol img (last (accepted thr k symbols)))"
    by (simp add: symbolsToBase64_lookup minSymbolConfidence_def)
next
  fix k
  assume "accepted 15 k symbols \<noteq> []"
  then show "map_of (symbolsToBase64 img symbols None) k =
            Some (cropSymbol img (last (accepted 15 k symbols)))"
    by (simp add: symbolsToBase64_lookup minSymbolConfidence_def)
qed

text \<open>An OCR result with the label \<open>a\<close> at confidence 90 and 80 and the label \<open>b\<close> at
  confidence 20. With the threshold 50 the set holds \<open>a\<close> alone, with the crop of its
  second occurrence; with no threshold it holds \<open>b\<close> as well.\<close>

theorem symbolsToBase64_last_write_wins_witness:
  "accepted 50 ''a''
     [\<lparr>symbol_text = ''a'', confidence = 90, symbol_bbox = \<lparr>x0 = 0, y0 = 0, x1 = 5, y1 = 8\<rparr>\<rparr>,
      \<lparr>symbol_text = ''b'', confidence = 20, symbol_bbox = \<lparr>x0 = 6, y0 = 0, x1 = 9, y1 = 8\<rparr>\<rparr>,
      \<lparr>symbol_text = ''a'', confidence = 80, symbol_bbox = \<lparr>x0 = 10, y0 = 0, x1 = 15, y1 = 8\<rparr>\<rparr>] \<noteq> []
   \<and> accepted 15 ''b''
     [\<lparr>symbol_text = ''a'', confidence = 90, symbol_bbox = \<lparr>x0 = 0, y0 = 0, x1 = 5, y1 = 8\<rparr>\<rparr>,
      \<lparr>symbol_text = ''b'', confidence = 20, symbol_bbox = \<lparr>x0 = 6, y0 = 0, x1 = 9, y1 = 8\<rparr>\<rparr>,
      \<lparr>symbol_text = ''a'', confidence = 80, symbol_bbox = \<lparr>x0 = 10, y0 = 0, x1 = 15, y1 = 8\<rparr>\<rparr>] \<noteq> []
   \<and> symbolsToBase64 (\<lambda>x y w h. if x = 10 then ''data:second'' else if x = 6 then ''data:b'' else ''data:first'')
     [\<lparr>symbol_text = ''a'', confidence = 90, symbol_bbox = \<lparr>x0 = 0, y0 = 0, x1 = 5, y1 = 8\<rparr>\<rparr>,
      \<lparr>symbol_text = ''b'', confidence = 20, symbol_bbox = \<lparr>x0 = 6, y0 = 0, x1 = 9, y1 = 8\<rparr>\<rparr>,
      \<lparr>symbol_text = ''a'', confidence = 80, symbol_bbox = \<lparr>x0 = 10, y0 = 0, x1 = 15, y1 = 8\<rparr>\<rparr>]
     (Some 50) = [(''a'', ''data:second'')]
   \<and> symbolsToBase64 (\<lambda>x y w h. if x = 10 then ''data:second'' else if x = 6 then ''data:b'' else ''data:first'')
     [\<lparr>symbol_text = ''a'', confidence = 90, symbol_bbox = \<lparr>x0 = 0, y0 = 0, x1 = 5, y1 = 8\<rparr>\<rparr>,
      \<lparr>symbol_text = ''b'', confidence = 20, symbol_bbox = \<lparr>x0 = 6, y0 = 0, x1 = 9, y1 = 8\<rparr>\<rparr>,
      \<lparr>symbol_text = ''a'', confidence = 80, symbol_bbox = \<lparr>x0 = 10, y0 = 0, x1 = 15, y1 = 8\<rparr>\<rparr>]
     None = [(''a'', ''data:second''), (''b'', ''data:b'')]"
proof -
  let ?img = "\<lambda>(x::int) (y::int) (w::int) (h::int).
      if x = 10 then ''data:second'' else if x = 6 then ''data:b'' else ''data:first''"
  let ?symbols = "[\<lparr>symbol_text = ''a'', confidence = 90, symbol_bbox = \<lparr>x0 = 0, y0 = 0, x1 = 5, y1 = 8\<rparr>\<rparr>,
      \<lparr>symbol_text = ''b'', confidence = 20, symbol_bbox = \<lparr>x0 = 6, y0 = 0, x1 = 9, y1 = 8\<rparr>\<rparr>,
      \<lparr>symbol_text = ''a'', confidence = 80, symbol_bbox = \<lparr>x0 = 10, y0 = 0, x1 = 15, y1 = 8\<rparr>\<rparr>]"
  have acc: "accepted 50 ''a'' ?symbols \<noteq> []"
    by (simp add: accepted_def)
  have acc': "accepted 15 ''b'' ?symbols \<noteq> []"
    by (simp add: accepted_def)
  have val: "map_of (symbolsToBase64 ?img ?symbols (Some 50)) ''a''
      = Some (cropSymbol ?img (last (accepted 50 ''a'' ?symbols)))"
    using symbolsToBase64_last_write_wins [of ?img ?symbols 50] acc by blast
  have val': "map_of (symbolsToBase64 ?img ?symbols None) ''b''
      = Some (cropSymbol ?img (last (accepted 15 ''b'' ?symbols)))"
    using symbolsToBase64_last_write_wins [of ?img ?symbols] acc' by blast
  have run: "symbolsToBase64 ?img ?symbols (Some 50) = [(''a'', ''data:second'')]"
    by (simp add: symbolsToBase64_def minSymbolConfidence_def crop_def)
  have run': "symbolsToBase64 ?img ?symbols None = [(''a'', ''data:second''), (''b'', ''data:b'')]"
    by (simp add: symbolsToBase64_def minSymbolConfidence_def crop_def)
  from acc acc' val val' run run' show ?thesis by blast
qed

subsection \<open>DomainReducer\<close>

lemma fold_delete_filter:
  "fold (\<lambda>key f. if P key then AList.delete key f else f) ks f =
   filter (\<lambda>(k, v). \<not> (k \<in> set ks \<and> P k)) f"
proof (induction ks arbitrary: f)
  case Nil
  show ?case by simp
next
  case (Cons a ks)
  show ?case
    by (auto simp: Cons.IH AList.delete_eq intro!: filter_cong)
qed

lemma fold_delete_own_keys:
  "fold (\<lambda>key f. if P key then AList.delete key f else f) (map fst f) f =
   filter (\<lambda>(k, v). \<not> P k) f"
proof -
  have "\<And>p. p \<in> set f \<Longrightarrow> fst p \<in> set (map fst f)" by simp
  then show ?thesis
    unfolding fold_delete_filter by (intro filter_cong refl) (simp add: case_prod_beta)
qed

lemma symbolsToDomain_filter:
  "symbolsToDomain first second =
    (filter (\<lambda>(k, v). truthy (map_of second k)) first,
     filter (\<lambda>(k, v). truthy (map_of (filter (\<lambda>(k, v). truthy (map_of second k)) first) k)) second)"
  by (simp add: symbolsToDomain_def Let_def fold_delete_own_keys)

lemma glyphSet_truthy:
  "glyphSet g \<Longrightarrow> truthy (map_of g k) \<longleftrightarrow> k \<in> set (map fst g)"
  by (induction g) (auto simp: glyphSet_def truthy_def)

lemma glyphSet_filter: "glyphSet g \<Longrightarrow> glyphSet (filter P g)"
  by (simp add: glyphSet_def list_all_iff)

lemma keys_filter: "set (map fst (filter (\<lambda>(k, v). Q k) g)) = {k \<in> set (map fst g). Q k}"
  by (induction g) auto

lemma symbolsToDomain_keys:
  assumes "glyphSet A" "glyphSet B"
  shows "set (map fst (fst (symbolsToDomain A B))) = set (map fst A) \<inter> set (map fst B)"
    and "set (map fst (snd (symbolsToDomain A B))) = set (map fst A) \<inter> set (map fst B)"
proof -
  let ?A = "filter (\<lambda>(k, v). truthy (map_of B k)) A"
  have tB: "\<And>k. truthy (map_of B k) \<longleftrightarrow> k \<in> set (map fst B)"
    using assms(2) by (rule glyphSet_truthy)
  have kA: "set (map fst ?A) = set (map fst A) \<inter> set (map fst B)"
    unfolding keys_filter tB by blast
  have "glyphSet ?A" using assms(1) by (rule glyphSet_filter)
  then have tA: "\<And>k. truthy (map_of ?A k) \<longleftrightarrow> k \<in> set (map fst ?A)"
    by (rule glyphSet_truthy)
  show "set (map fst (fst (symbolsToDomain A B))) = set (map fst A) \<inter> set (map fst B)"
    unfolding symbolsToDomain_filter fst_conv by (rule kA)
  have "set (map fst (snd (symbolsToDomain A B))) = {k \<in> set (map fst B). truthy (map_of ?A k)}"
    unfolding symbolsToDomain_filter snd_conv by (rule keys_filter)
  also have "\<dots> = {k \<in> set (map fst B). k \<in> set (map fst ?A)}"
    by (simp only: tA)
  also have "\<dots> = set (map fst A) \<inter> set (map fst B)"
    unfolding kA by blast
  finally show "set (map fst (snd (symbolsToDomain A B))) = set (map fst A) \<inter> set (map fst B)" .
qed

text \<open>
  Claim C3. For all glyph sets \<open>A\<close> and \<open>B\<close>, after \<open>_symbolsToDomain\<close> has run on
  them the key set of \<open>A\<close> equals the key set of \<open>B\<close>, and both equal the intersection of
  the key sets they had before. The glyphs of a glyph set are data URLs, which the test
  \<open>!second[key]\<close> of the source takes as present.
\<close>

theorem symbolsToDomain_intersection:
  assumes "glyphSet A" and "glyphSet B"
  shows "set (map fst (fst (symbolsToDomain A B))) = set (map fst (snd (symbolsToDomain A B)))
       \<and> set (map fst (fst (symbolsToDomain A B))) = set (map fst A) \<inter> set (map fst B)
       \<and> set (map fst (snd (symbolsToDomain A B))) = set (map fst A) \<inter> set (map fst B)"
  using symbolsToDomain_keys [OF assms] by simp

theorem symbolsToDomain_intersection_witness:
  "glyphSet [(''a'', ''data:1''), (''b'', ''data:2'')]
   \<and> glyphSet [(''b'', ''data:3''), (''c'', ''data:4'')]
   \<and> set (map fst (fst (symbolsToDomain [(''a'', ''data:1''), (''b'', ''data:2'')]
                                       [(''b'', ''data:3''), (''c'', ''data:4'')]))) = {''b''}
   \<and> set (map fst (snd (symbolsToDomain [(''a'', ''data:1''), (''b'', ''data:2'')]
                                       [(''b'', ''data:3''), (''c'', ''data:4'')]))) = {''b''}"
proof -
  have a: "glyphSet [(''a'', ''data:1''), (''b'', ''data:2'')]" by (simp add: glyphSet_def)
  have b: "glyphSet [(''b'', ''data:3''), (''c'', ''data:4'')]" by (simp add: glyphSet_def)
  show ?thesis
    using symbolsToDomain_intersection [OF a b] a b by auto
qed

text \<open>The test of the source is the truth value of \<open>second[key]\<close>, not the presence of
  the key: a glyph that is the empty string counts as absent. No glyph of a glyph set is,
  which is why the property is stated for glyph sets.\<close>

lemma symbolsToDomain_falsy_glyph:
  "symbolsToDomain [(''a'', ''data:1'')] [(''a'', [])] = ([], [])"
  by (simp add: symbolsToDomain_def truthy_def)

subsection \<open>ShapePerception\<close>

lemma loop_inv_first:
  "0 < width \<Longrightarrow> loop_inv width 1 1 0 [[b]]"
  by (simp add: loop_inv_def)

lemma loop_inv_same_row:
  assumes "0 < w" "w < width" "length matrix = j + 1" "\<forall>t<j. length (matrix ! t) = width"
    "length (matrix ! j) = w" "k = j * width + w"
  shows "loop_inv width (k + 1) (w + 1) j (matrix[j := matrix ! j @ [b]])"
  using assms by (simp add: loop_inv_def)

lemma loop_inv_new_row:
  assumes "0 < width" "length matrix = j + 1" "\<forall>t<j. length (matrix ! t) = width"
    "length (matrix ! j) = width" "k = j * width + width"
  shows "loop_inv width (k + 1) 1 (j + 1) ((matrix @ [[]])[j + 1 := (matrix @ [[]]) ! (j + 1) @ [b]])"
  using assms by (simp add: loop_inv_def nth_append less_Suc_eq)

lemma loop_inv_step:
  assumes "0 < width" "loop_inv width k w j matrix"
  defines "w1 \<equiv> (if w = width then 0 else w)"
      and "j1 \<equiv> (if w = width then j + 1 else j)"
  defines "matrix1 \<equiv> (if w1 = 0 then matrix @ [[]] else matrix)"
  shows "j1 < length matrix1 \<and> loop_inv width (k + 1) (w1 + 1) j1 (matrix1[j1 := matrix1 ! j1 @ [b]])"
proof -
  consider (start) "k = 0" "w = 0" "j = 0" "matrix = []"
    | (wrap) "w = width" "length matrix = j + 1" "\<forall>t<j. length (matrix ! t) = width"
        "length (matrix ! j) = width" "k = j * width + width"
    | (same) "0 < w" "w < width" "length matrix = j + 1" "\<forall>t<j. length (matrix ! t) = width"
        "length (matrix ! j) = w" "k = j * width + w"
    using assms(2) unfolding loop_inv_def by (cases "w = width") auto
  then show ?thesis
  proof cases
    case start
    then show ?thesis
      using assms(1) loop_inv_first[OF assms(1), of b] by (simp add: w1_def j1_def matrix1_def)
  next
    case wrap
    then show ?thesis
      using assms(1) loop_inv_new_row[OF assms(1) wrap(2,3,4,5), of b]
      by (simp add: w1_def j1_def matrix1_def)
  next
    case same
    then show ?thesis
      using loop_inv_same_row[OF same, of b] by (simp add: w1_def j1_def matrix1_def)
  qed
qed

lemma binarizedMatrix_loop_unfold:
  "i < length data \<Longrightarrow>
   binarizedMatrix_loop width data i w j matrix =
     (let w1 = (if w = width then 0 else w);
          j1 = (if w = width then j + 1 else j);
          matrix1 = (if w1 = 0 then matrix @ [[]] else matrix)
      in if j1 < length matrix1
         then binarizedMatrix_loop width data (i + 4) (w1 + 1) j1
                (matrix1[j1 := matrix1 ! j1 @ [if data ! i = 255 then 1 else 0]])
         else Inl TypeError)"
  by (subst binarizedMatrix_loop.simps) simp

lemma binarizedMatrix_loop_exit:
  "\<not> i < length data \<Longrightarrow> binarizedMatrix_loop width data i w j matrix = Inr matrix"
  by (subst binarizedMatrix_loop.simps) simp

lemma binarizedMatrix_loop_inv:
  "0 < width \<Longrightarrow> length data = 4 * n \<Longrightarrow> i = 4 * k \<Longrightarrow> k \<le> n \<Longrightarrow> loop_inv width k w j matrix \<Longrightarrow>
   \<exists>m w' j'. binarizedMatrix_loop width data i w j matrix = Inr m \<and> loop_inv width n w' j' m"
proof (induction width data i w j matrix arbitrary: k rule: binarizedMatrix_loop.induct)
  case (1 width data i w j matrix)
  show ?case
  proof (cases "i < length data")
    case False
    with 1(3,4,5) have "k = n" by simp
    with False 1(6) show ?thesis by (auto simp: binarizedMatrix_loop_exit)
  next
    case True
    define w1 where "w1 = (if w = width then 0 else w)"
    define j1 where "j1 = (if w = width then j + 1 else j)"
    define matrix1 where "matrix1 = (if w1 = 0 then matrix @ [[]] else matrix)"
    define b :: nat where "b = (if data ! i = 255 then 1 else 0)"
    have step: "j1 < length matrix1 \<and> loop_inv width (k + 1) (w1 + 1) j1 (matrix1[j1 := matrix1 ! j1 @ [b]])"
      using loop_inv_step[OF 1(2) 1(6), of b] unfolding w1_def j1_def matrix1_def by simp
    have k1: "i + 4 = 4 * (k + 1)" using 1(4) by simp
    have k2: "k + 1 \<le> n" using True 1(3,4) by simp
    have "\<exists>m w' j'. binarizedMatrix_loop width data (i + 4) (w1 + 1) j1 (matrix1[j1 := matrix1 ! j1 @ [b]]) = Inr m
        \<and> loop_inv width n w' j' m"
      unfolding b_def
      by (rule 1(1)[OF True w1_def j1_def matrix1_def conjunct1[OF step] 1(2) 1(3) k1 k2
            conjunct2[OF step, unfolded b_def]])
    moreover have "binarizedMatrix_loop width data i w j matrix =
        binarizedMatrix_loop width data (i + 4) (w1 + 1) j1 (matrix1[j1 := matrix1 ! j1 @ [b]])"
      using conjunct1[OF step]
      unfolding binarizedMatrix_loop_unfold[OF True] Let_def w1_def j1_def matrix1_def b_def by simp
    ultimately show ?thesis by simp
  qed
qed

lemma getBinarizedMatrix_rectangular:
  assumes "canvas img" "0 < canvas_width img" "0 < canvas_height img"
  shows "\<exists>m. getBinarizedMatrix img = Inr m \<and> length m = canvas_height img
           \<and> (\<forall>row \<in> set m. length row = canvas_width img)"
proof -
  let ?w = "canvas_width img" and ?h = "canvas_height img"
  have len: "length (canvas_data img) = 4 * (?w * ?h)" using assms(1) by (simp add: canvas_def)
  have "loop_inv ?w 0 0 0 []" by (simp add: loop_inv_def)
  from binarizedMatrix_loop_inv[OF assms(2) len _ _ this, of 0]
  obtain m w' j' where m: "binarizedMatrix_loop ?w (canvas_data img) 0 0 0 [] = Inr m"
    and inv: "loop_inv ?w (?w * ?h) w' j' m" by auto
  have pos: "0 < ?w * ?h" using assms(2,3) by simp
  from inv pos have a: "0 < w'" "w' \<le> ?w" "length m = j' + 1" "\<forall>t<j'. length (m ! t) = ?w"
    "length (m ! j') = w'" "?w * ?h = j' * ?w + w'"
    unfolding loop_inv_def by auto
  have "j' * ?w < ?h * ?w" using a(1,6) by (simp add: mult.commute)
  then have lt: "j' < ?h" by simp
  have "?h * ?w \<le> (j' + 1) * ?w" using a(2,6) by (simp add: mult.commute)
  then have "?h \<le> j' + 1" using assms(2) by (simp only: mult_le_cancel2)
  with lt have h: "?h = j' + 1" by simp
  with a(6) have w': "w' = ?w" by simp
  have "\<forall>row \<in> set m. length row = ?w"
  proof
    fix row assume "row \<in> set m"
    then obtain t where t: "t < length m" "row = m ! t" by (auto simp: in_set_conv_nth)
    show "length row = ?w"
    proof (cases "t < j'")
      case True
      with a(4) t show ?thesis by simp
    next
      case False
      with t a(3) have "t = j'" by simp
      with a(5) w' t show ?thesis by simp
    qed
  qed
  with m a(3) h show ?thesis by (simp add: getBinarizedMatrix_def)
qed

lemma rows_inv_step:
  fixes width :: nat
  assumes "rows_inv w j matrix"
  defines "w1 \<equiv> (if w = width then 0 else w)"
      and "j1 \<equiv> (if w = width then j + 1 else j)"
  defines "matrix1 \<equiv> (if w1 = 0 then matrix @ [[]] else matrix)"
  assumes "j1 < length matrix1"
  shows "rows_inv (w1 + 1) j1 (matrix1[j1 := matrix1 ! j1 @ [b]])"
proof -
  consider (start) "matrix = []" "j = 0" "w = 0"
    | (run) "length matrix = j + 1" "0 < w" "[] \<notin> set matrix"
    using assms(1) unfolding rows_inv_def by auto
  then show ?thesis
  proof cases
    case start
    with assms(5) show ?thesis
      by (auto simp: rows_inv_def w1_def j1_def matrix1_def split: if_splits)
  next
    case run
    show ?thesis
    proof (cases "w = width")
      case True
      with run show ?thesis
        by (simp add: rows_inv_def w1_def j1_def matrix1_def list_update_append nth_append)
    next
      case False
      have "set (matrix[j := matrix ! j @ [b]]) \<subseteq> insert (matrix ! j @ [b]) (set matrix)"
        by (rule set_update_subset_insert)
      with run False show ?thesis
        by (auto simp: rows_inv_def w1_def j1_def matrix1_def)
    qed
  qed
qed

lemma binarizedMatrix_loop_rows:
  "rows_inv w j matrix \<Longrightarrow> binarizedMatrix_loop width data i w j matrix = Inr m \<Longrightarrow> [] \<notin> set m"
proof (induction width data i w j matrix rule: binarizedMatrix_loop.induct)
  case (1 width data i w j matrix)
  show ?case
  proof (cases "i < length data")
    case False
    with 1(3) have "m = matrix" by (simp add: binarizedMatrix_loop_exit)
    with 1(2) show ?thesis by (auto simp: rows_inv_def)
  next
    case True
    define w1 where "w1 = (if w = width then 0 else w)"
    define j1 where "j1 = (if w = width then j + 1 else j)"
    define matrix1 where "matrix1 = (if w1 = 0 then matrix @ [[]] else matrix)"
    have j1: "j1 < length matrix1"
      using 1(3) unfolding binarizedMatrix_loop_unfold[OF True] Let_def w1_def j1_def matrix1_def
      by (simp split: if_splits)
    have run: "binarizedMatrix_loop width data (i + 4) (w1 + 1) j1
            (matrix1[j1 := matrix1 ! j1 @ [if data ! i = 255 then 1 else 0]]) = Inr m"
      using 1(3) j1 unfolding binarizedMatrix_loop_unfold[OF True] Let_def w1_def j1_def matrix1_def
      by (simp split: if_splits)
    have inv: "rows_inv (w1 + 1) j1 (matrix1[j1 := matrix1 ! j1 @ [if data ! i = 255 then 1 else 0]])"
      using rows_inv_step[OF 1(2), of width "if data ! i = 255 then 1 else 0"] j1
      unfolding w1_def j1_def matrix1_def by simp
    show ?thesis
      by (rule 1(1)[OF True w1_def j1_def matrix1_def j1 inv run])
  qed
qed

lemma getBinarizedMatrix_rows_nonempty:
  "getBinarizedMatrix img = Inr m \<Longrightarrow> [] \<notin> set m"
  unfolding getBinarizedMatrix_def
  by (rule binarizedMatrix_loop_rows[of 0 0 "[]"]) (simp_all add: rows_inv_def)

lemma distance_step_error: "fold (\<lambda>j acc. distance_step matrix matrix1 i j acc) js (Inl e) = Inl e"
  by (induction js) (simp_all add: distance_step_def)

lemma distance_row:
  "i < length matrix1 \<Longrightarrow>
   fold (\<lambda>j acc. distance_step matrix matrix1 i j acc) js (Inr d) =
     Inr (d + length (filter (\<lambda>j. cell (matrix ! i) j \<noteq> cell (matrix1 ! i) j) js))"
  by (induction js arbitrary: d) (simp_all add: distance_step_def)

lemma distance_rows:
  "\<forall>i \<in> set is. i < length matrix1 \<Longrightarrow>
   fold (\<lambda>i acc. fold (\<lambda>j acc. distance_step matrix matrix1 i j acc) [0..<c] acc) is (Inr d) =
     Inr (d + sum_list (map (\<lambda>i. row_distance (matrix ! i) (matrix1 ! i) c) is))"
  by (induction "is" arbitrary: d) (simp_all add: distance_row row_distance_def)

lemma distance_row_bound:
  "fold (\<lambda>j acc. distance_step matrix matrix1 i j acc) js (Inr d) = Inr d' \<Longrightarrow> d' \<le> d + length js"
proof (induction js arbitrary: d)
  case Nil
  then show ?case by simp
next
  case (Cons j js)
  show ?case
  proof (cases "distance_step matrix matrix1 i j (Inr d)")
    case (Inl e)
    with Cons.prems show ?thesis by (simp add: distance_step_error)
  next
    case (Inr d1)
    then have "d1 \<le> d + 1" by (auto simp: distance_step_def split: if_splits)
    moreover from Cons.prems Inr have "d' \<le> d1 + length js" by (intro Cons.IH) simp
    ultimately show ?thesis by simp
  qed
qed

lemma distance_rows_error:
  "fold (\<lambda>i acc. fold (\<lambda>j acc. distance_step matrix matrix1 i j acc) [0..<c] acc) is (Inl e) = Inl e"
  by (induction "is") (simp_all add: distance_step_error)

lemma distance_rows_bound:
  "fold (\<lambda>i acc. fold (\<lambda>j acc. distance_step matrix matrix1 i j acc) [0..<c] acc) is (Inr d) = Inr d'
   \<Longrightarrow> d' \<le> d + length is * c"
proof (induction "is" arbitrary: d)
  case Nil
  then show ?case by simp
next
  case (Cons i "is")
  show ?case
  proof (cases "fold (\<lambda>j acc. distance_step matrix matrix1 i j acc) [0..<c] (Inr d)")
    case (Inl e)
    with Cons.prems show ?thesis by (simp add: distance_rows_error)
  next
    case (Inr d1)
    from distance_row_bound[OF Inr] have "d1 \<le> d + c" by simp
    moreover from Cons.prems Inr have "d' \<le> d1 + length is * c" by (intro Cons.IH) simp
    ultimately show ?thesis by simp
  qed
qed

lemma distance_bound: "distance matrix matrix1 r c = Inr d \<Longrightarrow> d \<le> r * c"
  using distance_rows_bound[of matrix matrix1 c "[0..<r]" 0 d] by (simp add: distance_def)

lemma hammingDistance_rows:
  "length (filter (\<lambda>(i, j). m ! i ! j \<noteq> m1 ! i ! j) (List.product is js)) =
     sum_list (map (\<lambda>i. length (filter (\<lambda>j. m ! i ! j \<noteq> m1 ! i ! j) js)) is)"
  by (induction "is") (simp_all add: filter_map comp_def)

lemma distance_hamming:
  assumes "rectangular r c m" "rectangular r c m1"
  shows "distance m m1 r c = Inr (hammingDistance m m1 r c)"
proof -
  have rows: "\<And>i. i < r \<Longrightarrow> length (m ! i) = c \<and> length (m1 ! i) = c"
    using assms by (simp add: rectangular_def list_all_length)
  have "\<And>i. i < r \<Longrightarrow> row_distance (m ! i) (m1 ! i) c = length (filter (\<lambda>j. m ! i ! j \<noteq> m1 ! i ! j) [0..<c])"
    unfolding row_distance_def using rows by (intro arg_cong[where f=length] filter_cong refl) (simp add: cell_def)
  then have eq: "map (\<lambda>i. row_distance (m ! i) (m1 ! i) c) [0..<r] =
             map (\<lambda>i. length (filter (\<lambda>j. m ! i ! j \<noteq> m1 ! i ! j) [0..<c])) [0..<r]"
    by simp
  have "\<forall>i \<in> set [0..<r]. i < length m1" using assms(2) by (simp add: rectangular_def)
  then have "distance m m1 r c = Inr (sum_list (map (\<lambda>i. row_distance (m ! i) (m1 ! i) c) [0..<r]))"
    unfolding distance_def by (subst distance_rows) simp_all
  then show ?thesis
    unfolding hammingDistance_def hammingDistance_rows eq .
qed

lemma hammingDistance_same: "hammingDistance m m r c = 0"
  by (simp add: hammingDistance_def)

lemma hammingDistance_all:
  assumes "\<forall>i<r. \<forall>j<c. m ! i ! j \<noteq> m1 ! i ! j"
  shows "hammingDistance m m1 r c = r * c"
proof -
  have "filter (\<lambda>(i, j). m ! i ! j \<noteq> m1 ! i ! j) (List.product [0..<r] [0..<c]) = List.product [0..<r] [0..<c]"
    using assms by (intro filter_True) auto
  then show ?thesis by (simp add: hammingDistance_def)
qed

lemma similarity_of_matrices_formula:
  assumes "rectangular r c m" "rectangular r c m1" "0 < r" "0 < c"
  shows "similarity_of_matrices m m1 = Inr (Num (100 - real (hammingDistance m m1 r c) / real (r * c) * 100))"
proof -
  from assms(1,3) obtain row0 rest where m: "m = row0 # rest" "length row0 = c" "length m = r"
    by (cases m) (auto simp: rectangular_def)
  show ?thesis
    using assms(3,4) distance_hamming[OF assms(1,2)] m
    by (simp add: similarity_of_matrices_def)
qed

lemma getBinarizedMatrix_rectangular':
  assumes "canvas img" "0 < canvas_width img" "0 < canvas_height img"
  shows "\<exists>m. getBinarizedMatrix img = Inr m \<and> rectangular (canvas_height img) (canvas_width img) m"
  using getBinarizedMatrix_rectangular[OF assms] by (auto simp: rectangular_def list_all_iff)

text \<open>
  Claim C4. The two images ShapePerception has drawn have canvases of the same positive
  width \<open>w\<close> and height \<open>h\<close>. Then \<open>_getBinarizedMatrix\<close> gives two \<open>h\<close> by \<open>w\<close> matrices,
  and \<open>_compare\<close> resolves with \<open>100 - (hammingDistance / (h * w)) * 100\<close>, where
  \<open>hammingDistance\<close> counts the positions at which the matrices disagree. In particular
  identical matrices give 100, two 2 by 2 matrices that differ in exactly one cell give
  75, and matrices that differ everywhere give 0.
\<close>

theorem ShapePerception_similarity:
  assumes "canvas img" and "canvas img1"
    and "canvas_width img = w" and "canvas_height img = h"
    and "canvas_width img1 = w" and "canvas_height img1 = h"
    and "0 < w" and "0 < h"
  shows "\<exists>m m1. getBinarizedMatrix img = Inr m \<and> getBinarizedMatrix img1 = Inr m1
       \<and> rectangular h w m \<and> rectangular h w m1
       \<and> ShapePerception_compare (Inr (img, img1)) =
           Resolved (Num (100 - real (hammingDistance m m1 h w) / real (h * w) * 100))
       \<and> (m = m1 \<longrightarrow> ShapePerception_compare (Inr (img, img1)) = Resolved (Num 100))
       \<and> (h = 2 \<and> w = 2 \<and> hammingDistance m m1 h w = 1 \<longrightarrow>
             ShapePerception_compare (Inr (img, img1)) = Resolved (Num 75))
       \<and> ((\<forall>i<h. \<forall>j<w. m ! i ! j \<noteq> m1 ! i ! j) \<longrightarrow>
             ShapePerception_compare (Inr (img, img1)) = Resolved (Num 0))"
proof -
  from getBinarizedMatrix_rectangular'[OF assms(1)] assms(3,4,7,8)
  obtain m where m: "getBinarizedMatrix img = Inr m" "rectangular h w m" by auto
  from getBinarizedMatrix_rectangular'[OF assms(2)] assms(5,6,7,8)
  obtain m1 where m1: "getBinarizedMatrix img1 = Inr m1" "rectangular h w m1" by auto
  have run: "ShapePerception_compare (Inr (img, img1)) =
           Resolved (Num (100 - real (hammingDistance m m1 h w) / real (h * w) * 100))"
    using m(1) m1(1) similarity_of_matrices_formula[OF m(2) m1(2) assms(8,7)]
    by (simp add: ShapePerception_compare_def)
  have same: "m = m1 \<longrightarrow> ShapePerception_compare (Inr (img, img1)) = Resolved (Num 100)"
    using run by (simp add: hammingDistance_same)
  have one: "h = 2 \<and> w = 2 \<and> hammingDistance m m1 h w = 1 \<longrightarrow>
             ShapePerception_compare (Inr (img, img1)) = Resolved (Num 75)"
  proof (intro impI, elim conjE)
    assume "h = 2" "w = 2" "hammingDistance m m1 h w = 1"
    with run show "ShapePerception_compare (Inr (img, img1)) = Resolved (Num 75)" by simp
  qed
  have inverted: "(\<forall>i<h. \<forall>j<w. m ! i ! j \<noteq> m1 ! i ! j) \<longrightarrow>
             ShapePerception_compare (Inr (img, img1)) = Resolved (Num 0)"
    using run assms(7,8) by (auto simp: hammingDistance_all)
  from m m1 run same one inverted show ?thesis by blast
qed

text \<open>Two 2 by 2 canvases, all white and white but for the first pixel: the matrices
  differ in one cell of four and the similarity is 75.\<close>

theorem ShapePerception_similarity_witness:
  "canvas \<lparr>canvas_width = 2, canvas_height = 2,
        canvas_data = [255, 255, 255, 255,  255, 255, 255, 255,  255, 255, 255, 255,  255, 255, 255, 255]\<rparr>
   \<and> canvas \<lparr>canvas_width = 2, canvas_height = 2,
        canvas_data = [0, 0, 0, 255,  255, 255, 255, 255,  255, 255, 255, 255,  255, 255, 255, 255]\<rparr>
   \<and> hammingDistance [[1, 1], [1, 1]] [[0, 1], [1, 1]] 2 2 = 1
   \<and> ShapePerception_compare (Inr
        (\<lparr>canvas_width = 2, canvas_height = 2,
          canvas_data = [255, 255, 255, 255,  255, 255, 255, 255,  255, 255, 255, 255,  255, 255, 255, 255]\<rparr>,
         \<lparr>canvas_width = 2, canvas_height = 2,
          canvas_data = [0, 0, 0, 255,  255, 255, 255, 255,  255, 255, 255, 255,  255, 255, 255, 255]\<rparr>))
       = Resolved (Num 75)"
proof -
  let ?A = "\<lparr>canvas_width = 2, canvas_height = 2,
        canvas_data = [255, 255, 255, 255,  255, 255, 255, 255,  255, 255, 255, 255,  255, 255, 255, 255]\<rparr>"
  let ?B = "\<lparr>canvas_width = 2, canvas_height = 2,
        canvas_data = [0, 0, 0, 255,  255, 255, 255, 255,  255, 255, 255, 255,  255, 255, 255, 255]\<rparr>"
  have cA: "canvas ?A" and cB: "canvas ?B" by (simp_all add: canvas_def)
  have mA: "getBinarizedMatrix ?A = Inr [[1, 1], [1, 1]]"
    by (simp add: getBinarizedMatrix_def binarizedMatrix_loop.simps)
  have mB: "getBinarizedMatrix ?B = Inr [[0, 1], [1, 1]]"
    by (simp add: getBinarizedMatrix_def binarizedMatrix_loop.simps)
  have d: "hammingDistance [[1, 1], [1, 1]] [[0, 1], [1, 1]] 2 2 = 1"
    by (simp add: hammingDistance_def upt_rec numeral_2_eq_2)
  from ShapePerception_similarity [OF cA cB, of 2 2]
  obtain m m1 where "getBinarizedMatrix ?A = Inr m" "getBinarizedMatrix ?B = Inr m1"
    "hammingDistance m m1 2 2 = 1 \<longrightarrow> ShapePerception_compare (Inr (?A, ?B)) = Resolved (Num 75)"
    by auto
  with mA mB d have "ShapePerception_compare (Inr (?A, ?B)) = Resolved (Num 75)" by simp
  with cA cB d show ?thesis by blast
qed

lemma ShapePerception_compare_range:
  assumes "ShapePerception_compare prepared = Resolved v"
  shows "\<exists>s. v = Num s \<and> 0 \<le> s \<and> s \<le> 100"
proof -
  from assms obtain img img1 m m1 where
    m: "getBinarizedMatrix img = Inr m" and v: "similarity_of_matrices m m1 = Inr v"
    by (auto simp: ShapePerception_compare_def split: sum.splits prod.splits)
  from v obtain row0 rest where rows: "m = row0 # rest" by (cases m) (auto simp: similarity_of_matrices_def)
  from getBinarizedMatrix_rows_nonempty[OF m] rows have c: "0 < length row0" by auto
  define n where "n = length m * length row0"
  from v rows obtain d where d: "distance m m1 (length m) (length row0) = Inr d"
    and v': "v = (if n = 0 then NaN else Num (100 - (real d / real n * 100)))"
    unfolding n_def by (auto simp: similarity_of_matrices_def Let_def split: sum.splits)
  have pos: "0 < n" using c rows by (simp add: n_def)
  have le: "d \<le> n" unfolding n_def by (rule distance_bound[OF d])
  define q where "q = real d / real n"
  have "q \<le> 1" using pos le by (simp add: q_def)
  moreover have "0 \<le> q" by (simp add: q_def)
  ultimately have "0 \<le> 100 - (q * 100)" "100 - (q * 100) \<le> 100"
    by linarith+
  with v' pos show ?thesis unfolding q_def by simp
qed

lemma AnalyticPerception_compare_range:
  assumes "AnalyticPerception_compare J source1 source2 opts = Resolved s"
    and "\<And>a b t p. jimp_diff_percent J a b t = Inr p \<Longrightarrow> 0 \<le> p \<and> p \<le> 1"
  shows "0 \<le> s \<and> s \<le> 100"
proof -
  from assms(1) obtain a b t p where "jimp_diff_percent J a b t = Inr p" "s = 100 - p * 100"
    by (auto simp: AnalyticPerception_compare_def Let_def split: sum.splits)
  with assms(2)[of a b t p] show ?thesis by simp
qed

lemma average_count: "fold (\<lambda>(symbol, r) ll. ll + 1) res (n::nat) = n + length res"
  by (induction res arbitrary: n) (simp_all add: case_prod_beta)

lemma average_sum_bounds:
  assumes "\<forall>(k, r) \<in> set res. 0 \<le> analytic r \<and> analytic r \<le> 100 \<and> 0 \<le> shape r \<and> shape r \<le> 100"
  shows "c0 \<le> fold (\<lambda>(symbol, r) calc. calc + (analytic r + shape r) / 2) res c0
       \<and> fold (\<lambda>(symbol, r) calc. calc + (analytic r + shape r) / 2) res c0 \<le> c0 + 100 * real (length res)"
  using assms
proof (induction res arbitrary: c0)
  case Nil
  then show ?case by simp
next
  case (Cons p res)
  let ?F = "\<lambda>(symbol, r) calc. calc + (analytic r + shape r) / 2"
  obtain k r where p: "p = (k, r)" by (cases p)
  define x where "x = (analytic r + shape r) / 2"
  from Cons.prems p have r: "0 \<le> x" "x \<le> 100" by (auto simp: x_def)
  from Cons.prems have rest: "\<forall>(k, r) \<in> set res. 0 \<le> analytic r \<and> analytic r \<le> 100 \<and> 0 \<le> shape r \<and> shape r \<le> 100"
    by simp
  define y where "y = fold ?F res (c0 + x)"
  define n where "n = real (length res)"
  from Cons.IH[OF rest, of "c0 + x"]
  have ih: "c0 + x \<le> y" "y \<le> c0 + x + 100 * n"
    unfolding y_def n_def by blast+
  have e: "fold ?F (p # res) c0 = y" by (simp add: p x_def y_def)
  have l: "real (length (p # res)) = n + 1" by (simp add: n_def)
  have "c0 \<le> y" using ih r by linarith
  moreover have "y \<le> c0 + 100 * (n + 1)" using ih r by argo
  ultimately show ?case unfolding e l by blast
qed

lemma average_eq:
  "res \<noteq> [] \<Longrightarrow>
   average res = Num (fold (\<lambda>(symbol, r) calc. calc + (analytic r + shape r) / 2) res 0 / real (length res))"
  unfolding average_def average_count Let_def by simp

lemma average_range:
  assumes "res \<noteq> []"
    and "\<forall>(k, r) \<in> set res. 0 \<le> analytic r \<and> analytic r \<le> 100 \<and> 0 \<le> shape r \<and> shape r \<le> 100"
  shows "\<exists>s. average res = Num s \<and> 0 \<le> s \<and> s \<le> 100"
proof -
  let ?calc = "fold (\<lambda>(symbol, r) calc. calc + (analytic r + shape r) / 2) res 0"
  have n: "0 < real (length res)" using assms(1) by simp
  from average_sum_bounds[OF assms(2), of 0] have b: "0 \<le> ?calc" "?calc \<le> 100 * real (length res)" by simp_all
  have "0 \<le> ?calc / real (length res)" using b(1) by simp
  moreover have "?calc / real (length res) \<le> 100" using b(2) n by (simp add: pos_divide_le_eq)
  ultimately show ?thesis using average_eq[OF assms(1)] by blast
qed

lemma average_nonempty: "res \<noteq> [] \<Longrightarrow> \<exists>s. average res = Num s"
  using average_eq by blast

text \<open>
  Claim C8. Every similarity the system produces lies in \<open>[0, 100]\<close>: whatever
  ShapePerception resolves with, on any input, is a number in that interval; so is what
  AnalyticPerception resolves with, provided the pixel-diff fraction of Jimp lies in
  \<open>[0, 1]\<close>; and so is the average \<open>_average\<close> computes over a non-empty aggregate
  whose scores lie in \<open>[0, 100]\<close>.
\<close>

theorem similarity_values_in_range:
  "(ShapePerception_compare prepared = Resolved v \<longrightarrow> (\<exists>s. v = Num s \<and> 0 \<le> s \<and> s \<le> 100))
   \<and> ((\<forall>a b t p. jimp_diff_percent J a b t = Inr p \<longrightarrow> 0 \<le> p \<and> p \<le> 1)
        \<and> AnalyticPerception_compare J source1 source2 opts = Resolved x \<longrightarrow> 0 \<le> x \<and> x \<le> 100)
   \<and> (res \<noteq> [] \<and> (\<forall>(k, r) \<in> set res. 0 \<le> analytic r \<and> analytic r \<le> 100 \<and> 0 \<le> shape r \<and> shape r \<le> 100)
        \<longrightarrow> (\<exists>s. average res = Num s \<and> 0 \<le> s \<and> s \<le> 100))"
  using ShapePerception_compare_range[of prepared v]
    AnalyticPerception_compare_range[of J source1 source2 opts x]
    average_range[of res]
  by blast


text \<open>The canvases of the example above, a Jimp whose diff reports a quarter of the pixels
  as different, and an aggregate of one symbol with scores 100 and 50.\<close>

theorem similarity_values_in_range_witness:
  "ShapePerception_compare (Inr
        (\<lparr>canvas_width = 2, canvas_height = 2,
          canvas_data = [255, 255, 255, 255,  255, 255, 255, 255,  255, 255, 255, 255,  255, 255, 255, 255]\<rparr>,
         \<lparr>canvas_width = 2, canvas_height = 2,
          canvas_data = [0, 0, 0, 255,  255, 255, 255, 255,  255, 255, 255, 255,  255, 255, 255, 255]\<rparr>))
       = Resolved (Num 75)
   \<and> AnalyticPerception_compare
        \<lparr>jimp_read = (\<lambda>s. Inr (0::nat)), jimp_resize = (\<lambda>w h i. i),
         jimp_diff_percent = (\<lambda>a b t. Inr (1 / 4)), atob = (\<lambda>s. s)\<rparr>
        ''data:image/png;base64,AAAA'' ''data:image/png;base64,BBBB''
        \<lparr>analyticComparisonThreshold = None, analyticComparisonScaleToSameSize = None,
         analyticComparisonSize = None\<rparr> = Resolved 75
   \<and> average [(''a'', \<lparr>analytic = 100, shape = 50\<rparr>)] = Num 75
   \<and> (0::real) \<le> 75 \<and> (75::real) \<le> 100"
proof -
  let ?A = "\<lparr>canvas_width = 2, canvas_height = 2,
        canvas_data = [255, 255, 255, 255,  255, 255, 255, 255,  255, 255, 255, 255,  255, 255, 255, 255]\<rparr>"
  let ?B = "\<lparr>canvas_width = 2, canvas_height = 2,
        canvas_data = [0, 0, 0, 255,  255, 255, 255, 255,  255, 255, 255, 255,  255, 255, 255, 255]\<rparr>"
  let ?J = "\<lparr>jimp_read = (\<lambda>s. Inr (0::nat)), jimp_resize = (\<lambda>w h i. i),
         jimp_diff_percent = (\<lambda>a b t. Inr (1 / 4)), atob = (\<lambda>s. s)\<rparr>"
  let ?o = "\<lparr>analyticComparisonThreshold = None, analyticComparisonScaleToSameSize = None,
         analyticComparisonSize = None\<rparr>"
  let ?res = "[(''a'', \<lparr>analytic = 100, shape = 50\<rparr>)]"
  have shape: "ShapePerception_compare (Inr (?A, ?B)) = Resolved (Num 75)"
    by (simp add: ShapePerception_compare_def getBinarizedMatrix_def binarizedMatrix_loop.simps
          similarity_of_matrices_def distance_def distance_step_def cell_def upt_rec numeral_2_eq_2)
  have analytic: "AnalyticPerception_compare ?J ''data:image/png;base64,AAAA''
      ''data:image/png;base64,BBBB'' ?o = Resolved 75"
    by (simp add: AnalyticPerception_compare_def)
  have avg: "average ?res = Num 75"
    by (simp add: average_def)
  have diff: "\<forall>a b t p. jimp_diff_percent ?J a b t = Inr p \<longrightarrow> 0 \<le> p \<and> p \<le> 1"
    by simp
  have scores: "?res \<noteq> [] \<and> (\<forall>(k, r) \<in> set ?res. 0 \<le> analytic r \<and> analytic r \<le> 100 \<and> 0 \<le> shape r \<and> shape r \<le> 100)"
    by simp
  from similarity_values_in_range [of "Inr (?A, ?B)" "Num 75" ?J "''data:image/png;base64,AAAA''"
      "''data:image/png;base64,BBBB''" ?o 75 ?res] shape analytic diff scores
  have "(0::real) \<le> 75 \<and> (75::real) \<le> 100" by blast
  with shape analytic avg show ?thesis by blast
qed

subsection \<open>ComparisonAggregator on an empty domain\<close>

lemma compare_settle_idle: "c_pending st = [] \<Longrightarrow> compare_settle P symbol st = st"
  by (simp add: compare_settle_def)

lemma compare_run_idle: "c_pending st = [] \<Longrightarrow> compare_run P st sched = st"
  unfolding compare_run_def by (induction sched) (simp_all add: compare_settle_idle)

text \<open>
  Claim C1, which asks that \<open>_compare\<close> on a first set with no key resolve at once with
  an empty aggregate. The code does not: \<open>todo\<close> is 0, the loop starts no comparator, so
  \<open>finalize\<close>, the only caller of \<open>resolve\<close>, never runs, and whatever happens
  afterwards the promise stays pending.
\<close>

theorem compare_empty_domain_never_settles:
  "c_todo (compare_start [] second) = 0
   \<and> c_pending (compare_start [] second) = []
   \<and> c_promise (compare_run P (compare_start [] second) sched) = Pending"
proof -
  have "c_pending (compare_start [] second) = []" by (simp add: compare_start_def)
  from compare_run_idle[OF this, of P sched] show ?thesis by (simp add: compare_start_def)
qed

subsection \<open>FontStorage\<close>

text \<open>
  Claim C10. When the request ends with status 404, \<open>_fetch\<close> resolves with an object
  whose \<open>exists\<close> is false and that has no \<open>content\<close>; \<open>prepareFontsIndex\<close> and
  \<open>prepareFont\<close> then read a property of the undefined \<open>content\<close>, and the error that
  reaches the caller is that TypeError, not the message about the established format,
  which is what a document that is present but has no \<open>index\<close> array, or no \<open>alpha\<close>,
  is rejected with.
\<close>

theorem fetch_404_unstructured:
  "fetch parse url (OnLoad 404 responseText) = Resolved \<lparr>exists = False, content = None\<rparr>
   \<and> prepareFontsIndex parse url (OnLoad 404 responseText) = Rejected TypeError
   \<and> prepareFont parse toText url (OnLoad 404 responseText) = Rejected TypeError
   \<and> TypeError \<noteq> index_format_error url
   \<and> TypeError \<noteq> font_format_error url
   \<and> (status \<noteq> 404 \<and> parse responseText = Some (JObject kvs) \<and> \<not> isArray (map_of kvs ''index'')
        \<longrightarrow> prepareFontsIndex parse url (OnLoad status responseText) = Rejected (index_format_error url))
   \<and> (status \<noteq> 404 \<and> parse responseText = Some (JObject kvs) \<and> \<not> json_truthy (map_of kvs ''alpha'')
        \<longrightarrow> prepareFont parse toText url (OnLoad status responseText) = Rejected (font_format_error url))"
  by (simp add: fetch_def prepareFontsIndex_def prepareFont_def resolve_def reject_def property_def
        index_format_error_def font_format_error_def)

text \<open>A document that parses to an object without \<open>index\<close> and without \<open>alpha\<close>,
  served with status 200 and with status 404.\<close>

theorem fetch_404_unstructured_witness:
  "(200::nat) \<noteq> 404
   \<and> \<not> isArray (map_of [(''fonts'', JArray [])] ''index'')
   \<and> \<not> json_truthy (map_of [(''fonts'', JArray [])] ''alpha'')
   \<and> prepareFontsIndex (\<lambda>t. Some (JObject [(''fonts'', JArray [])])) ''storage/index.json'' (OnLoad 200 ''{}'')
       = Rejected (index_format_error ''storage/index.json'')
   \<and> prepareFont (\<lambda>t. Some (JObject [(''fonts'', JArray [])])) (\<lambda>v. ''x'') ''storage/index.json'' (OnLoad 200 ''{}'')
       = Rejected (font_format_error ''storage/index.json'')
   \<and> prepareFontsIndex (\<lambda>t. Some (JObject [(''fonts'', JArray [])])) ''storage/index.json'' (OnLoad 404 ''{}'')
       = Rejected TypeError"
proof -
  have a: "(200::nat) \<noteq> 404" by simp
  have b: "\<not> isArray (map_of [(''fonts'', JArray [])] ''index'')" by (simp add: isArray_def)
  have c: "\<not> json_truthy (map_of [(''fonts'', JArray [])] ''alpha'')" by (simp add: json_truthy_def)
  from fetch_404_unstructured [of "\<lambda>t. Some (JObject [(''fonts'', JArray [])])" "''storage/index.json''" "''{}''"
      "\<lambda>v. ''x''" 200 "[(''fonts'', JArray [])]"] a b c
  show ?thesis by simp
qed

subsection \<open>ComparisonAggregator: what holds at every moment\<close>

lemma compare_issue_length: "length (fst (compare_issue first second)) \<le> length first"
  by (induction first second rule: compare_issue.induct) (auto split: option.splits prod.splits)

lemma compare_start_promise:
  "c_promise (compare_start first second) = Pending \<or> (\<exists>e. c_promise (compare_start first second) = Rejected e)"
  by (auto simp: compare_start_def split: prod.splits option.splits)

lemma cinv_start: "cinv (compare_start first second)"
  using compare_issue_length[of first second]
  by (auto simp: cinv_def compare_start_def split: prod.splits option.splits)

lemma length_delete_less:
  "map_of al k = Some v \<Longrightarrow> length (AList.delete k al) < length al"
proof (induction al)
  case Nil
  then show ?case by simp
next
  case (Cons p al)
  show ?case
  proof (cases "fst p = k")
    case True
    have "length (AList.delete k al) \<le> length al" by (rule length_delete_le)
    with True show ?thesis by simp
  next
    case False
    with Cons show ?thesis by (cases p) auto
  qed
qed

lemma cinv_pending_unresolved:
  assumes "cinv cs" "map_of (c_pending cs) symbol = Some gg"
  shows "c_promise cs \<noteq> Resolved fin"
proof
  assume "c_promise cs = Resolved fin"
  with assms(1) have "c_pending cs = []" by (auto simp: cinv_def)
  with assms(2) show False by simp
qed

lemma cinv_resolved_idle:
  assumes "cinv cs" "c_promise cs = Resolved fin"
  shows "c_pending cs = []" "fin \<noteq> []"
  using assms by (auto simp: cinv_def)

lemma compare_finalize_fields:
  "c_pending (compare_finalize symbol res st) = c_pending st"
  "c_todo (compare_finalize symbol res st) = c_todo st"
  "c_done (compare_finalize symbol res st) = c_done st + 1"
  "c_result (compare_finalize symbol res st) = AList.update symbol res (c_result st)"
  "c_promise (compare_finalize symbol res st) =
     (if c_done st + 1 = c_todo st then resolve (AList.update symbol res (c_result st)) (c_promise st)
      else c_promise st)"
  by (simp_all add: compare_finalize_def Let_def)

lemma compare_settle_None:
  "map_of (c_pending st) symbol = None \<Longrightarrow> compare_settle P symbol st = st"
  by (simp add: compare_settle_def)

lemma compare_settle_Inl:
  "map_of (c_pending st) symbol = Some (g, g1) \<Longrightarrow>
   promiseAll2 (shapeRejectsFirst P g g1) (analyticPerception P g g1) (shapePerception P g g1) = Inl e \<Longrightarrow>
   compare_settle P symbol st =
     st\<lparr>c_pending := AList.delete symbol (c_pending st), c_promise := reject e (c_promise st)\<rparr>"
  by (simp add: compare_settle_def)

lemma compare_settle_Inr:
  "map_of (c_pending st) symbol = Some (g, g1) \<Longrightarrow>
   promiseAll2 (shapeRejectsFirst P g g1) (analyticPerception P g g1) (shapePerception P g g1) = Inr (a, s) \<Longrightarrow>
   compare_settle P symbol st =
     compare_finalize symbol \<lparr>analytic = a, shape = s\<rparr> (st\<lparr>c_pending := AList.delete symbol (c_pending st)\<rparr>)"
  by (simp add: compare_settle_def)

lemma promiseAll2_fails:
  "isl x \<or> isl y \<Longrightarrow> \<exists>e. promiseAll2 b x y = Inl e"
  by (cases x; cases y) (simp_all add: promiseAll2_def)

lemma cinv_settle:
  assumes "cinv cs"
  shows "cinv (compare_settle P symbol cs)"
proof (cases "map_of (c_pending cs) symbol")
  case None
  with assms show ?thesis by (simp add: compare_settle_None)
next
  case (Some gg)
  obtain g g1 where gg: "gg = (g, g1)" by (cases gg)
  have less: "length (AList.delete symbol (c_pending cs)) < length (c_pending cs)"
    using Some by (rule length_delete_less)
  have unres: "\<And>fin. c_promise cs \<noteq> Resolved fin"
    using assms Some by (rule cinv_pending_unresolved)
  from assms have le: "c_done cs + length (c_pending cs) \<le> c_todo cs" by (simp add: cinv_def)
  show ?thesis
  proof (cases "promiseAll2 (shapeRejectsFirst P g g1) (analyticPerception P g g1) (shapePerception P g g1)")
    case (Inl e)
    from less le unres show ?thesis
      unfolding compare_settle_Inl[OF Some[unfolded gg] Inl]
      by (cases "c_promise cs") (auto simp: cinv_def reject_def)
  next
    case (Inr as)
    obtain a s where as: "as = (a, s)" by (cases as)
    from less le unres show ?thesis
      unfolding compare_settle_Inr[OF Some[unfolded gg] Inr[unfolded as]]
      by (cases "c_promise cs")
         (auto simp: cinv_def resolve_def compare_finalize_fields)
  qed
qed

lemma compare_settle_rejected:
  assumes "cinv cs" "c_promise cs = Rejected e"
  shows "c_promise (compare_settle P symbol cs) = Rejected e"
proof (cases "map_of (c_pending cs) symbol")
  case None
  with assms show ?thesis by (simp add: compare_settle_None)
next
  case (Some gg)
  obtain g g1 where gg: "gg = (g, g1)" by (cases gg)
  show ?thesis
  proof (cases "promiseAll2 (shapeRejectsFirst P g g1) (analyticPerception P g g1) (shapePerception P g g1)")
    case (Inl e')
    show ?thesis
      unfolding compare_settle_Inl[OF Some[unfolded gg] Inl]
      using assms(2) by (simp add: reject_def)
  next
    case (Inr as)
    obtain a s where as: "as = (a, s)" by (cases as)
    show ?thesis
      unfolding compare_settle_Inr[OF Some[unfolded gg] Inr[unfolded as]]
      using assms(2) by (simp add: compare_finalize_fields resolve_def)
  qed
qed

lemma compare_settle_resolved:
  assumes "cinv cs" "c_promise cs = Resolved fin"
  shows "compare_settle P symbol cs = cs"
  using cinv_resolved_idle(1)[OF assms] by (simp add: compare_settle_None)

lemma compare_settle_failure:
  assumes "cinv cs" "map_of (c_pending cs) symbol = Some (g, g1)" "comparison_fails P g g1"
  shows "\<exists>e. c_promise (compare_settle P symbol cs) = Rejected e"
proof -
  from assms(3) obtain e where
    e: "promiseAll2 (shapeRejectsFirst P g g1) (analyticPerception P g g1) (shapePerception P g g1) = Inl e"
    unfolding comparison_fails_def using promiseAll2_fails by blast
  have "\<And>fin. c_promise cs \<noteq> Resolved fin"
    using assms(1,2) by (rule cinv_pending_unresolved)
  then show ?thesis
    unfolding compare_settle_Inl[OF assms(2) e]
    by (cases "c_promise cs") (auto simp: reject_def)
qed

lemma cinv_run: "cinv cs \<Longrightarrow> cinv (compare_run P cs sched)"
  unfolding compare_run_def by (induction sched arbitrary: cs) (simp_all add: cinv_settle)

lemma compare_run_rejected:
  "cinv cs \<Longrightarrow> c_promise cs = Rejected e \<Longrightarrow> c_promise (compare_run P cs sched) = Rejected e"
  unfolding compare_run_def
  by (induction sched arbitrary: cs) (simp_all add: cinv_settle compare_settle_rejected)

lemma compare_run_append:
  "compare_run P cs (sched1 @ sched2) = compare_run P (compare_run P cs sched1) sched2"
  by (simp add: compare_run_def)

lemma compare_run_Cons:
  "compare_run P cs (symbol # sched) = compare_run P (compare_settle P symbol cs) sched"
  by (simp add: compare_run_def)

lemma compare_fail_fast:
  assumes "map_of (c_pending (compare_run P (compare_start first second) sched1)) symbol = Some (g, g1)"
    and "comparison_fails P g g1"
  shows "\<exists>e. c_promise (compare_run P (compare_start first second) (sched1 @ symbol # sched2)) = Rejected e"
proof -
  let ?cs = "compare_run P (compare_start first second) sched1"
  have inv: "cinv ?cs" by (rule cinv_run[OF cinv_start])
  from compare_settle_failure[OF inv assms] obtain e where
    e: "c_promise (compare_settle P symbol ?cs) = Rejected e" by blast
  have "cinv (compare_settle P symbol ?cs)" by (rule cinv_settle[OF inv])
  from compare_run_rejected[OF this e, where sched = sched2] show ?thesis
    by (auto simp: compare_run_append compare_run_Cons)
qed

subsection \<open>CorpusMatcher: what holds at every moment\<close>

lemma count_update_same:
  "i < length xs \<Longrightarrow> P (xs ! i) = P y \<Longrightarrow> length (filter P (xs[i := y])) = length (filter P xs)"
proof (induction xs arbitrary: i)
  case Nil
  then show ?case by simp
next
  case (Cons x xs)
  then show ?case by (cases i) auto
qed

lemma count_update_gain:
  "i < length xs \<Longrightarrow> \<not> P (xs ! i) \<Longrightarrow> P y \<Longrightarrow> length (filter P (xs[i := y])) = length (filter P xs) + 1"
proof (induction xs arbitrary: i)
  case Nil
  then show ?case by simp
next
  case (Cons x xs)
  then show ?case by (cases i) auto
qed

lemma count_unfinished:
  "i < length xs \<Longrightarrow> \<not> P (xs ! i) \<Longrightarrow> length (filter P xs) < length xs"
  by (rule length_filter_less[of "xs ! i"]) simp_all

lemma list_all_update: "list_all Q xs \<Longrightarrow> Q y \<Longrightarrow> list_all Q (xs[i := y])"
  by (induction xs arbitrary: i) (auto split: nat.splits)

lemma sort_insert_set: "set (sort_insert a bs) = insert a (set bs)"
  by (induction bs) auto

lemma sort_insert_length: "length (sort_insert a bs) = length bs + 1"
  by (induction bs) auto

lemma sort_by_similarity_set: "set (sort_by_similarity xs) = set xs"
  unfolding sort_by_similarity_def by (induction xs) (simp_all add: sort_insert_set)

lemma sort_by_similarity_length: "length (sort_by_similarity xs) = length xs"
  unfolding sort_by_similarity_def by (induction xs) (simp_all add: sort_insert_length)

lemma comparator_positive_num:
  "is_num (similarity a) \<Longrightarrow> is_num (similarity b) \<Longrightarrow>
   comparator_positive a b \<longleftrightarrow> \<not> num_ge (similarity a) (similarity b)"
  by (cases "similarity a"; cases "similarity b")
     (auto simp: comparator_positive_def num_ge_def is_num_def)

lemma num_ge_linear:
  "is_num x \<Longrightarrow> is_num y \<Longrightarrow> \<not> num_ge x y \<Longrightarrow> num_ge y x"
  by (cases x; cases y) (auto simp: num_ge_def is_num_def)

lemma num_ge_trans: "num_ge x y \<Longrightarrow> num_ge y z \<Longrightarrow> num_ge x z"
  by (cases x; cases y; cases z) (auto simp: num_ge_def)

lemma sort_insert_descending:
  assumes "is_num (similarity a)" "list_all (\<lambda>e. is_num (similarity e)) bs" "descending bs"
  shows "descending (sort_insert a bs)"
  using assms(2,3)
proof (induction bs)
  case Nil
  then show ?case by (simp add: descending_def)
next
  case (Cons b bs)
  have nb: "is_num (similarity b)" using Cons.prems(1) by simp
  show ?case
  proof (cases "comparator_positive a b")
    case True
    then have ba: "num_ge (similarity b) (similarity a)"
      using comparator_positive_num[OF assms(1) nb] num_ge_linear[OF assms(1) nb] by blast
    have "descending (sort_insert a bs)"
      using Cons by (simp add: descending_def)
    with True ba Cons.prems(2) show ?thesis
      by (auto simp: descending_def sort_insert_set)
  next
    case False
    then have ab: "num_ge (similarity a) (similarity b)"
      using comparator_positive_num[OF assms(1) nb] by blast
    have "\<forall>c \<in> set bs. num_ge (similarity a) (similarity c)"
      using Cons.prems(2) ab by (auto simp: descending_def intro: num_ge_trans)
    with False ab Cons.prems(2) show ?thesis
      by (auto simp: descending_def)
  qed
qed

lemma sort_by_similarity_descending:
  "list_all (\<lambda>e. is_num (similarity e)) xs \<Longrightarrow> descending (sort_by_similarity xs)"
proof (induction xs)
  case Nil
  then show ?case by (simp add: sort_by_similarity_def descending_def)
next
  case (Cons x xs)
  have "list_all (\<lambda>e. is_num (similarity e)) (sort_by_similarity xs)"
    using Cons.prems by (simp add: list_all_iff sort_by_similarity_set)
  moreover have "descending (sort_by_similarity xs)" using Cons by simp
  moreover have "is_num (similarity x)" using Cons.prems by simp
  ultimately have "descending (sort_insert x (sort_by_similarity xs))"
    by (intro sort_insert_descending)
  then show ?case by (simp add: sort_by_similarity_def)
qed

lemma sort_by_similarity_all_num:
  "list_all (\<lambda>e. is_num (similarity e)) xs \<Longrightarrow> list_all (\<lambda>e. is_num (similarity e)) (sort_by_similarity xs)"
  by (simp add: list_all_iff sort_by_similarity_set)

lemma finalize_meta_is_num: "val \<noteq> [] \<Longrightarrow> is_num (similarity (finalize_meta name val font))"
  using average_nonempty[of val] by (auto simp: finalize_meta_def Let_def is_num_def)

lemma recognize_finalize_fields:
  "r_fonts (recognize_finalize E name val font st) = r_fonts st"
  "r_symbols (recognize_finalize E name val font st) = r_symbols st"
  "r_done (recognize_finalize E name val font st) = r_done st + 1"
  "r_result (recognize_finalize E name val font st) =
     (if r_done st + 1 = length (fonts E)
      then sort_by_similarity (r_result st @ [finalize_meta name val font])
      else r_result st @ [finalize_meta name val font])"
  "r_promise (recognize_finalize E name val font st) =
     (if r_done st + 1 = length (fonts E)
      then resolve (sort_by_similarity (r_result st @ [finalize_meta name val font])) (r_promise st)
      else r_promise st)"
  "r_progress (recognize_finalize E name val font st) =
     (if hasProgress E
      then r_progress st @ [(name, val, real (r_done st) / real (length (fonts E)))]
      else r_progress st)"
  by (simp_all add: recognize_finalize_def Let_def)

lemma rinv_start: "rinv E (recognize_start E recognized)"
  by (simp add: rinv_def recognize_start_def list_all_iff font_inv_def finished_def)

lemma unfinished_unresolved:
  assumes "rinv E st" "i < length (r_fonts st)" "\<not> finished (r_fonts st ! i)"
  shows "r_promise st \<noteq> Resolved res"
proof
  assume "r_promise st = Resolved res"
  with assms(1) have "length (filter finished (r_fonts st)) = length (r_fonts st)"
    by (simp add: rinv_def)
  with count_unfinished[of i "r_fonts st" finished, OF assms(2,3)] show False by simp
qed

lemma reject_unresolved: "p \<noteq> Resolved res \<Longrightarrow> reject e p \<noteq> Resolved res"
  by (cases p) (simp_all add: reject_def)

lemma rinv_frame:
  assumes "rinv E st" "i < length (r_fonts st)" "\<not> finished (r_fonts st ! i)"
    and "\<not> finished fs" "font_inv fs"
    and "r_fonts st' = (r_fonts st)[i := fs]" "r_done st' = r_done st"
    and "r_result st' = r_result st" "r_progress st' = r_progress st"
    and "r_promise st' = r_promise st \<or> (\<exists>e. r_promise st' = reject e (r_promise st))"
  shows "rinv E st'"
proof -
  have count: "length (filter finished (r_fonts st')) = length (filter finished (r_fonts st))"
    unfolding assms(6) using assms(2,3,4) by (intro count_update_same) simp_all
  have inv: "list_all font_inv (r_fonts st')"
    unfolding assms(6) using assms(1,5) by (intro list_all_update) (simp_all add: rinv_def)
  have "\<And>res. r_promise st \<noteq> Resolved res"
    using assms(1,2,3) by (rule unfinished_unresolved)
  then have unres: "\<And>res. r_promise st' \<noteq> Resolved res"
    using assms(10) reject_unresolved by metis
  show ?thesis
    using assms(1) count inv unres assms(6,7,8,9) by (simp add: rinv_def)
qed

lemma compare_start_unfinished: "\<not> finished (Comparing (compare_start first second) font)"
  using compare_start_promise[of first second] by (auto simp: finished_def)

lemma rinv_font_settled:
  assumes "rinv E st"
  shows "rinv E (font_settled E i st)"
proof (cases "i < length (r_fonts st) \<and> r_fonts st ! i = Fetching")
  case False
  with assms show ?thesis by (auto simp: font_settled_def)
next
  case True
  then have i: "i < length (r_fonts st)" and unfin: "\<not> finished (r_fonts st ! i)"
    by (simp_all add: finished_def)
  show ?thesis
  proof (cases "preparedFont E i")
    case (Inl e)
    show ?thesis
    proof (rule rinv_frame[OF assms i unfin, of FetchFailed])
      show "\<not> finished FetchFailed" by (simp add: finished_def)
      show "font_inv FetchFailed" by (simp add: font_inv_def)
    qed (use True Inl in \<open>auto simp: font_settled_def\<close>)
  next
    case (Inr font)
    obtain symbols1 alpha1 where red: "symbolsToDomain (r_symbols st) (alpha font) = (symbols1, alpha1)"
      by (cases "symbolsToDomain (r_symbols st) (alpha font)")
    let ?cs = "compare_start symbols1 alpha1"
    show ?thesis
    proof (rule rinv_frame[OF assms i unfin, of "Comparing ?cs (font\<lparr>alpha := alpha1\<rparr>)"])
      show "\<not> finished (Comparing ?cs (font\<lparr>alpha := alpha1\<rparr>))" by (rule compare_start_unfinished)
      show "font_inv (Comparing ?cs (font\<lparr>alpha := alpha1\<rparr>))" by (simp add: font_inv_def cinv_start)
      show "r_promise (font_settled E i st) = r_promise st \<or>
        (\<exists>e. r_promise (font_settled E i st) = reject e (r_promise st))"
        using True Inr red by (cases "c_promise ?cs") (auto simp: font_settled_def Let_def)
    qed (use True Inr red in \<open>auto simp: font_settled_def Let_def\<close>)
  qed
qed

lemma symbol_settled_idle:
  "\<not> i < length (r_fonts st) \<or> r_fonts st ! i = Fetching \<or> r_fonts st ! i = FetchFailed \<Longrightarrow>
   symbol_settled E i symbol st = st"
  by (auto simp: symbol_settled_def)

lemma symbol_settled_settled:
  assumes "i < length (r_fonts st)" "r_fonts st ! i = Comparing cs font" "c_promise cs \<noteq> Pending"
  shows "symbol_settled E i symbol st =
          st\<lparr>r_fonts := (r_fonts st)[i := Comparing (compare_settle (perceptions E) symbol cs) font]\<rparr>"
  using assms by (cases "c_promise cs") (simp_all add: symbol_settled_def Let_def)

lemma symbol_settled_pending:
  assumes "i < length (r_fonts st)" "r_fonts st ! i = Comparing cs font" "c_promise cs = Pending"
  shows "symbol_settled E i symbol st =
          (case c_promise (compare_settle (perceptions E) symbol cs) of
             Pending \<Rightarrow> st\<lparr>r_fonts := (r_fonts st)[i := Comparing (compare_settle (perceptions E) symbol cs) font]\<rparr>
           | Resolved fin \<Rightarrow>
               recognize_finalize E (fonts E ! i) fin font
                 (st\<lparr>r_fonts := (r_fonts st)[i := Comparing (compare_settle (perceptions E) symbol cs) font]\<rparr>)
           | Rejected e \<Rightarrow>
               st\<lparr>r_fonts := (r_fonts st)[i := Comparing (compare_settle (perceptions E) symbol cs) font],
                  r_promise := reject e (r_promise st)\<rparr>)"
  using assms by (simp add: symbol_settled_def Let_def split: promise.splits)

lemma rinv_finalize:
  assumes "rinv E st" "i < length (r_fonts st)" "\<not> finished (r_fonts st ! i)"
    and "cinv cs1" "c_promise cs1 = Resolved fin"
  shows "rinv E (recognize_finalize E name fin font (st\<lparr>r_fonts := (r_fonts st)[i := Comparing cs1 font]\<rparr>))"
proof -
  let ?st1 = "st\<lparr>r_fonts := (r_fonts st)[i := Comparing cs1 font]\<rparr>"
  let ?st2 = "recognize_finalize E name fin font ?st1"
  let ?entry = "finalize_meta name fin font"
  let ?n = "length (fonts E)"
  have fin: "finished (Comparing cs1 font)" using assms(5) by (simp add: finished_def)
  have count: "length (filter finished ((r_fonts st)[i := Comparing cs1 font])) = r_done st + 1"
    using count_update_gain[of i "r_fonts st" finished, OF assms(2,3) fin] assms(1) by (simp add: rinv_def)
  have inv: "list_all font_inv ((r_fonts st)[i := Comparing cs1 font])"
    using assms(1,4) by (intro list_all_update) (simp_all add: rinv_def font_inv_def)
  have "fin \<noteq> []" using assms(4,5) by (simp add: cinv_def)
  then have num: "is_num (similarity ?entry)" by (rule finalize_meta_is_num)
  then have nums: "list_all (\<lambda>e. is_num (similarity e)) (r_result st @ [?entry])"
    using assms(1) by (simp add: rinv_def)
  have unres: "\<And>res. r_promise st \<noteq> Resolved res"
    using assms(1,2,3) by (rule unfinished_unresolved)
  have len: "length (r_fonts ?st2) = ?n" using assms(1) by (simp add: recognize_finalize_fields rinv_def)
  have fonts: "list_all font_inv (r_fonts ?st2)" using inv by (simp add: recognize_finalize_fields)
  have counted: "r_done ?st2 = length (filter finished (r_fonts ?st2))"
    using count by (simp add: recognize_finalize_fields)
  have result: "length (r_result ?st2) = r_done ?st2"
    using assms(1) by (simp add: recognize_finalize_fields rinv_def sort_by_similarity_length)
  have result_num: "list_all (\<lambda>e. is_num (similarity e)) (r_result ?st2)"
    using nums sort_by_similarity_all_num[OF nums] by (simp add: recognize_finalize_fields)
  have promise: "\<forall>res. r_promise ?st2 = Resolved res \<longrightarrow>
            r_done ?st2 = ?n \<and> res = r_result ?st2 \<and> descending res"
  proof (cases "r_done st + 1 = ?n")
    case True
    show ?thesis
      using True unres sort_by_similarity_descending[OF nums]
      by (cases "r_promise st") (auto simp: recognize_finalize_fields resolve_def)
  next
    case False
    with unres show ?thesis by (simp add: recognize_finalize_fields)
  qed
  have progress: "hasProgress E \<longrightarrow>
            map (\<lambda>(name, val, fraction). fraction) (r_progress ?st2) =
              map (\<lambda>k. real k / real ?n) [0..<r_done ?st2]"
    using assms(1) by (simp add: recognize_finalize_fields rinv_def)
  from len fonts counted result result_num promise progress show ?thesis
    unfolding rinv_def by blast
qed

lemma record_update_id: "st\<lparr>r_fonts := r_fonts st\<rparr> = st"
  by simp

lemma rinv_symbol_settled:
  assumes "rinv E st"
  shows "rinv E (symbol_settled E i symbol st)"
proof (cases "i < length (r_fonts st)")
  case False
  with assms show ?thesis by (simp add: symbol_settled_idle)
next
  case i: True
  show ?thesis
  proof (cases "r_fonts st ! i")
    case Fetching
    with assms show ?thesis by (simp add: symbol_settled_idle)
  next
    case FetchFailed
    with assms show ?thesis by (simp add: symbol_settled_idle)
  next
    case (Comparing cs font)
    let ?cs1 = "compare_settle (perceptions E) symbol cs"
    have c: "cinv cs" using assms i Comparing by (auto simp: rinv_def list_all_length font_inv_def)
    have c1: "cinv ?cs1" using c by (rule cinv_settle)
    show ?thesis
    proof (cases "c_promise cs")
      case (Resolved fin)
      then have same: "?cs1 = cs" using c by (intro compare_settle_resolved)
      have "(r_fonts st)[i := Comparing cs font] = r_fonts st"
        using Comparing by (metis list_update_id)
      then have "symbol_settled E i symbol st = st"
        using symbol_settled_settled[OF i Comparing, of E symbol] Resolved same
        by simp
      with assms show ?thesis by simp
    next
      case (Rejected e)
      have p1: "c_promise ?cs1 = Rejected e" using c Rejected by (rule compare_settle_rejected)
      have eq: "symbol_settled E i symbol st = st\<lparr>r_fonts := (r_fonts st)[i := Comparing ?cs1 font]\<rparr>"
        using symbol_settled_settled[OF i Comparing, of E symbol] Rejected by simp
      show ?thesis
        unfolding eq
      proof (rule rinv_frame[OF assms i, of "Comparing ?cs1 font"])
        show "\<not> finished (r_fonts st ! i)" using Comparing Rejected by (simp add: finished_def)
        show "\<not> finished (Comparing ?cs1 font)" using p1 by (simp add: finished_def)
        show "font_inv (Comparing ?cs1 font)" using c1 by (simp add: font_inv_def)
      qed simp_all
    next
      case Pending
      have unfin: "\<not> finished (r_fonts st ! i)" using Comparing Pending by (simp add: finished_def)
      note eq = symbol_settled_pending[OF i Comparing Pending, of E symbol]
      show ?thesis
      proof (cases "c_promise ?cs1")
        case Pending
        show ?thesis
          unfolding eq Pending promise.case
        proof (rule rinv_frame[OF assms i unfin, of "Comparing ?cs1 font"])
          show "\<not> finished (Comparing ?cs1 font)" using Pending by (simp add: finished_def)
          show "font_inv (Comparing ?cs1 font)" using c1 by (simp add: font_inv_def)
        qed simp_all
      next
        case (Rejected e)
        show ?thesis
          unfolding eq Rejected promise.case
        proof (rule rinv_frame[OF assms i unfin, of "Comparing ?cs1 font"])
          show "\<not> finished (Comparing ?cs1 font)" using Rejected by (simp add: finished_def)
          show "font_inv (Comparing ?cs1 font)" using c1 by (simp add: font_inv_def)
        qed auto
      next
        case (Resolved fin)
        show ?thesis
          unfolding eq Resolved promise.case
          by (rule rinv_finalize[OF assms i unfin c1 Resolved])
      qed
    qed
  qed
qed

lemma rinv_step: "rinv E st \<Longrightarrow> rinv E (recognize_step E ev st)"
  by (cases ev) (simp_all add: rinv_font_settled rinv_symbol_settled)

lemma rinv_fold: "rinv E st \<Longrightarrow> rinv E (fold (recognize_step E) sched st)"
  by (induction sched arbitrary: st) (simp_all add: rinv_step)

lemma rinv_run: "rinv E (recognize_run E recognized sched)"
  unfolding recognize_run_def by (rule rinv_fold[OF rinv_start])

lemma finished_Comparing:
  "finished (Comparing cs font) \<longleftrightarrow> (\<exists>fin. c_promise cs = Resolved fin)"
  by (cases "c_promise cs") (simp_all add: finished_def)

lemma entries_update_unfinished:
  assumes "i < length fs" "\<not> finished (fs ! i)" "\<not> finished y"
  shows "entries E (fs[i := y]) = entries E fs"
proof (intro set_eqI iffI)
  fix e assume "e \<in> entries E (fs[i := y])"
  then obtain k cs' font' fin' where k: "k < length fs" "fs[i := y] ! k = Comparing cs' font'"
    "c_promise cs' = Resolved fin'" "e = finalize_meta (fonts E ! k) fin' font'"
    by (auto simp: entries_def)
  have "k \<noteq> i"
  proof
    assume "k = i"
    with k(1,2) have "y = Comparing cs' font'" by simp
    with k(3) assms(3) show False by (simp add: finished_Comparing)
  qed
  with k(2) have "fs ! k = Comparing cs' font'" by simp
  with k show "e \<in> entries E fs" unfolding entries_def by blast
next
  fix e assume "e \<in> entries E fs"
  then obtain k cs' font' fin' where k: "k < length fs" "fs ! k = Comparing cs' font'"
    "c_promise cs' = Resolved fin'" "e = finalize_meta (fonts E ! k) fin' font'"
    by (auto simp: entries_def)
  have "k \<noteq> i"
  proof
    assume "k = i"
    with k(2,3) assms(2) show False by (simp add: finished_Comparing)
  qed
  with k(2) have "fs[i := y] ! k = Comparing cs' font'" by simp
  with k show "e \<in> entries E (fs[i := y])" unfolding entries_def by auto
qed

lemma entries_update_finish:
  assumes "i < length fs" "\<not> finished (fs ! i)" "c_promise cs = Resolved fin"
  shows "entries E (fs[i := Comparing cs font]) = insert (finalize_meta (fonts E ! i) fin font) (entries E fs)"
proof -
  have other: "\<And>k. k < length fs \<Longrightarrow> k \<noteq> i \<Longrightarrow> fs[i := Comparing cs font] ! k = fs ! k"
    by simp
  have self: "fs[i := Comparing cs font] ! i = Comparing cs font" using assms(1) by simp
  have unf: "\<And>cs' font' fin'. fs ! i = Comparing cs' font' \<Longrightarrow> c_promise cs' \<noteq> Resolved fin'"
    using assms(2) by (auto simp: finished_Comparing)
  show ?thesis
  proof (intro set_eqI iffI)
    fix e assume "e \<in> entries E (fs[i := Comparing cs font])"
    then obtain k cs' font' fin' where k: "k < length fs" "fs[i := Comparing cs font] ! k = Comparing cs' font'"
      "c_promise cs' = Resolved fin'" "e = finalize_meta (fonts E ! k) fin' font'"
      by (auto simp: entries_def)
    show "e \<in> insert (finalize_meta (fonts E ! i) fin font) (entries E fs)"
    proof (cases "k = i")
      case True
      with k self assms(3) show ?thesis by simp
    next
      case False
      with k(2) other[OF k(1) False] have "fs ! k = Comparing cs' font'" by simp
      with k have "e \<in> entries E fs" unfolding entries_def by blast
      then show ?thesis by simp
    qed
  next
    fix e assume "e \<in> insert (finalize_meta (fonts E ! i) fin font) (entries E fs)"
    then consider "e = finalize_meta (fonts E ! i) fin font" | "e \<in> entries E fs" by blast
    then show "e \<in> entries E (fs[i := Comparing cs font])"
    proof cases
      case 1
      have "i < length (fs[i := Comparing cs font])" using assms(1) by simp
      with 1 assms(3) self show ?thesis unfolding entries_def by blast
    next
      case 2
      then obtain k cs' font' fin' where k: "k < length fs" "fs ! k = Comparing cs' font'"
        "c_promise cs' = Resolved fin'" "e = finalize_meta (fonts E ! k) fin' font'"
        by (auto simp: entries_def)
      with unf have "k \<noteq> i" by auto
      with k(2) other[OF k(1)] have "fs[i := Comparing cs font] ! k = Comparing cs' font'" by simp
      moreover have "k < length (fs[i := Comparing cs font])" using k(1) by simp
      ultimately show ?thesis using k(3,4) unfolding entries_def by blast
    qed
  qed
qed

lemma recognize_step_cases:
  assumes "rinv E st"
  obtains (idle) "recognize_step E ev st = st"
  | (frame) i fs where "i < length (r_fonts st)" "\<not> finished (r_fonts st ! i)" "\<not> finished fs" "font_inv fs"
      "r_fonts (recognize_step E ev st) = (r_fonts st)[i := fs]"
      "r_done (recognize_step E ev st) = r_done st"
      "r_result (recognize_step E ev st) = r_result st"
      "r_progress (recognize_step E ev st) = r_progress st"
      "r_promise (recognize_step E ev st) = r_promise st
        \<or> (\<exists>e. r_promise (recognize_step E ev st) = reject e (r_promise st))"
      "failed fs \<and> \<not> failed (r_fonts st ! i) \<longrightarrow> (\<exists>e. r_promise (recognize_step E ev st) = reject e (r_promise st))"
  | (finish) i cs1 fin font where "i < length (r_fonts st)" "\<not> finished (r_fonts st ! i)"
      "cinv cs1" "c_promise cs1 = Resolved fin"
      "recognize_step E ev st =
         recognize_finalize E (fonts E ! i) fin font (st\<lparr>r_fonts := (r_fonts st)[i := Comparing cs1 font]\<rparr>)"
proof (cases ev)
  case (FontSettled i)
  show ?thesis
  proof (cases "i < length (r_fonts st) \<and> r_fonts st ! i = Fetching")
    case False
    then have "recognize_step E ev st = st" using FontSettled by (auto simp: font_settled_def)
    then show ?thesis by (rule idle)
  next
    case True
    then have i: "i < length (r_fonts st)" and unfin: "\<not> finished (r_fonts st ! i)"
      by (simp_all add: finished_def)
    show ?thesis
    proof (cases "preparedFont E i")
      case (Inl e)
      show ?thesis
      proof (rule frame[OF i unfin, of FetchFailed])
        show "\<not> finished FetchFailed" by (simp add: finished_def)
        show "font_inv FetchFailed" by (simp add: font_inv_def)
      qed (use True Inl FontSettled in \<open>auto simp: font_settled_def\<close>)
    next
      case (Inr font)
      obtain symbols1 alpha1 where red: "symbolsToDomain (r_symbols st) (alpha font) = (symbols1, alpha1)"
        by (cases "symbolsToDomain (r_symbols st) (alpha font)")
      let ?cs = "compare_start symbols1 alpha1"
      let ?fs = "Comparing ?cs (font\<lparr>alpha := alpha1\<rparr>)"
      have promise: "r_promise (recognize_step E ev st) =
          (case c_promise ?cs of Rejected e \<Rightarrow> reject e (r_promise st) | Pending \<Rightarrow> r_promise st
             | Resolved fin \<Rightarrow> r_promise st)"
        using True Inr red FontSettled by (simp add: font_settled_def Let_def)
      show ?thesis
      proof (rule frame[OF i unfin, of ?fs])
        show "\<not> finished ?fs" by (rule compare_start_unfinished)
        show "font_inv ?fs" by (simp add: font_inv_def cinv_start)
        show "r_promise (recognize_step E ev st) = r_promise st \<or>
          (\<exists>e. r_promise (recognize_step E ev st) = reject e (r_promise st))"
          unfolding promise by (cases "c_promise ?cs") auto
        show "failed ?fs \<and> \<not> failed (r_fonts st ! i) \<longrightarrow>
          (\<exists>e. r_promise (recognize_step E ev st) = reject e (r_promise st))"
          unfolding promise by (cases "c_promise ?cs") (auto simp: failed_def)
      qed (use True Inr red FontSettled in \<open>auto simp: font_settled_def Let_def\<close>)
    qed
  qed
next
  case (SymbolSettled i symbol)
  then have ev: "recognize_step E ev st = symbol_settled E i symbol st" by simp
  show ?thesis
  proof (cases "\<not> i < length (r_fonts st) \<or> r_fonts st ! i = Fetching \<or> r_fonts st ! i = FetchFailed")
    case True
    then have "recognize_step E ev st = st" unfolding ev by (rule symbol_settled_idle)
    then show ?thesis by (rule idle)
  next
    case False
    then have i: "i < length (r_fonts st)" by simp
    from False obtain cs font where Comparing: "r_fonts st ! i = Comparing cs font"
      by (cases "r_fonts st ! i") auto
    let ?cs1 = "compare_settle (perceptions E) symbol cs"
    have c: "cinv cs" using assms i Comparing by (auto simp: rinv_def list_all_length font_inv_def)
    have c1: "cinv ?cs1" using c by (rule cinv_settle)
    show ?thesis
    proof (cases "c_promise cs")
      case (Resolved fin)
      then have same: "?cs1 = cs" using c by (intro compare_settle_resolved)
      have "(r_fonts st)[i := Comparing cs font] = r_fonts st"
        using Comparing by (metis list_update_id)
      then have "symbol_settled E i symbol st = st"
        using symbol_settled_settled[OF i Comparing, of E symbol] Resolved same
        by simp
      then show ?thesis unfolding ev[symmetric] by (rule idle)
    next
      case (Rejected e)
      have p1: "c_promise ?cs1 = Rejected e" using c Rejected by (rule compare_settle_rejected)
      have eq: "recognize_step E ev st = st\<lparr>r_fonts := (r_fonts st)[i := Comparing ?cs1 font]\<rparr>"
        unfolding ev using symbol_settled_settled[OF i Comparing, of E symbol] Rejected by simp
      show ?thesis
      proof (rule frame[OF i, of "Comparing ?cs1 font"])
        show "\<not> finished (r_fonts st ! i)" using Comparing Rejected by (simp add: finished_def)
        show "\<not> finished (Comparing ?cs1 font)" using p1 by (simp add: finished_def)
        show "font_inv (Comparing ?cs1 font)" using c1 by (simp add: font_inv_def)
        show "failed (Comparing ?cs1 font) \<and> \<not> failed (r_fonts st ! i) \<longrightarrow>
          (\<exists>e. r_promise (recognize_step E ev st) = reject e (r_promise st))"
          using Comparing Rejected by (simp add: failed_def)
      qed (simp_all add: eq)
    next
      case Pending
      have unfin: "\<not> finished (r_fonts st ! i)" using Comparing Pending by (simp add: finished_def)
      note eq = symbol_settled_pending[OF i Comparing Pending, of E symbol, folded ev]
      show ?thesis
      proof (cases "c_promise ?cs1")
        case Pending
        show ?thesis
        proof (rule frame[OF i unfin, of "Comparing ?cs1 font"])
          show "\<not> finished (Comparing ?cs1 font)" using Pending by (simp add: finished_def)
          show "font_inv (Comparing ?cs1 font)" using c1 by (simp add: font_inv_def)
          show "failed (Comparing ?cs1 font) \<and> \<not> failed (r_fonts st ! i) \<longrightarrow>
            (\<exists>e. r_promise (recognize_step E ev st) = reject e (r_promise st))"
            using Pending by (simp add: failed_def)
        qed (simp_all add: eq Pending)
      next
        case (Rejected e)
        show ?thesis
        proof (rule frame[OF i unfin, of "Comparing ?cs1 font"])
          show "\<not> finished (Comparing ?cs1 font)" using Rejected by (simp add: finished_def)
          show "font_inv (Comparing ?cs1 font)" using c1 by (simp add: font_inv_def)
        qed (auto simp: eq Rejected)
      next
        case (Resolved fin)
        show ?thesis
          by (rule finish[OF i unfin c1 Resolved]) (simp add: eq Resolved)
      qed
    qed
  qed
qed

lemma reject_rejected: "(\<And>res. p \<noteq> Resolved res) \<Longrightarrow> \<exists>e'. reject e p = Rejected e'"
  by (cases p) (auto simp: reject_def)

lemma reject_stable: "reject e' (Rejected e) = Rejected e"
  by (simp add: reject_def)

lemma resolve_stable: "resolve v (Rejected e) = Rejected e"
  by (simp add: resolve_def)

lemma rejected_step:
  assumes "rinv E st" "r_promise st = Rejected e"
  shows "r_promise (recognize_step E ev st) = Rejected e"
  using assms(1)
proof (cases rule: recognize_step_cases[where ev = ev])
  case idle
  with assms(2) show ?thesis by simp
next
  case (frame i fs)
  from frame(9) assms(2) show ?thesis by (auto simp: reject_stable)
next
  case (finish i cs1 fin font)
  with assms(2) show ?thesis by (simp add: recognize_finalize_fields resolve_stable)
qed

lemma rejected_fold:
  "rinv E st \<Longrightarrow> r_promise st = Rejected e \<Longrightarrow> r_promise (fold (recognize_step E) sched st) = Rejected e"
  by (induction sched arbitrary: st) (simp_all add: rinv_step rejected_step)

lemma rinv2_start: "rinv2 E (recognize_start E recognized)"
  by (auto simp: rinv2_def recognize_start_def entries_def failed_def)

lemma rinv2_step:
  assumes "rinv E st" "rinv2 E st"
  shows "rinv2 E (recognize_step E ev st)"
  using assms(1)
proof (cases rule: recognize_step_cases[where ev = ev])
  case idle
  with assms(2) show ?thesis by simp
next
  case (frame i fs)
  let ?st' = "recognize_step E ev st"
  have unres: "\<And>res. r_promise st \<noteq> Resolved res"
    using assms(1) frame(1,2) by (rule unfinished_unresolved)
  have content: "set (r_result ?st') = entries E (r_fonts ?st')"
    using assms(2) entries_update_unfinished[OF frame(1,2,3), of E]
    by (simp add: rinv2_def frame(5,7))
  have fail: "(\<exists>k < length (r_fonts ?st'). failed (r_fonts ?st' ! k)) \<longrightarrow> (\<exists>e. r_promise ?st' = Rejected e)"
  proof (intro impI, elim exE conjE)
    fix k assume k: "k < length (r_fonts ?st')" "failed (r_fonts ?st' ! k)"
    show "\<exists>e. r_promise ?st' = Rejected e"
    proof (cases "\<exists>k < length (r_fonts st). failed (r_fonts st ! k)")
      case True
      with assms(2) obtain e where "r_promise st = Rejected e" by (auto simp: rinv2_def)
      from rejected_step[OF assms(1) this] show ?thesis by blast
    next
      case False
      have "k = i"
      proof (rule ccontr)
        assume "k \<noteq> i"
        with k have "k < length (r_fonts st)" "failed (r_fonts st ! k)" by (simp_all add: frame(5))
        with False show False by blast
      qed
      with k frame(1) have "failed fs" by (simp add: frame(5))
      moreover have "\<not> failed (r_fonts st ! i)" using False frame(1) by blast
      ultimately obtain e where "r_promise ?st' = reject e (r_promise st)" using frame(10) by blast
      with reject_rejected[OF unres] show ?thesis by metis
    qed
  qed
  from content fail show ?thesis unfolding rinv2_def by blast
next
  case (finish i cs1 fin font)
  let ?st' = "recognize_step E ev st"
  have fonts': "r_fonts ?st' = (r_fonts st)[i := Comparing cs1 font]"
    by (simp add: finish(5) recognize_finalize_fields)
  have "set (r_result ?st') = insert (finalize_meta (fonts E ! i) fin font) (set (r_result st))"
    by (simp add: finish(5) recognize_finalize_fields sort_by_similarity_set)
  then have content: "set (r_result ?st') = entries E (r_fonts ?st')"
    using assms(2) entries_update_finish[OF finish(1,2,4), of E font]
    by (simp add: rinv2_def fonts')
  have fail: "(\<exists>k < length (r_fonts ?st'). failed (r_fonts ?st' ! k)) \<longrightarrow> (\<exists>e. r_promise ?st' = Rejected e)"
  proof (intro impI, elim exE conjE)
    fix k assume k: "k < length (r_fonts ?st')" "failed (r_fonts ?st' ! k)"
    have "k \<noteq> i"
    proof
      assume "k = i"
      with k finish(1,4) show False by (simp add: fonts' failed_def)
    qed
    with k have "k < length (r_fonts st)" "failed (r_fonts st ! k)" by (simp_all add: fonts')
    with assms(2) obtain e where "r_promise st = Rejected e" by (auto simp: rinv2_def)
    from rejected_step[OF assms(1) this] show "\<exists>e. r_promise ?st' = Rejected e" by blast
  qed
  from content fail show ?thesis unfolding rinv2_def by blast
qed

lemma rinv2_fold:
  "rinv E st \<Longrightarrow> rinv2 E st \<Longrightarrow> rinv2 E (fold (recognize_step E) sched st)"
  by (induction sched arbitrary: st) (simp_all add: rinv_step rinv2_step)

lemma rinv2_run: "rinv2 E (recognize_run E recognized sched)"
  unfolding recognize_run_def by (rule rinv2_fold[OF rinv_start rinv2_start])

lemma recognize_run_append:
  "recognize_run E recognized (sched1 @ ev # sched2) =
     fold (recognize_step E) sched2 (recognize_step E ev (recognize_run E recognized sched1))"
  by (simp add: recognize_run_def)

lemma descending_two:
  assumes "descending res" "length res = 2" "a \<in> set res" "b \<in> set res"
    "similarity a = Num 100" "similarity b = Num 0"
  shows "res = [a, b]"
proof -
  from assms(2) obtain x y where res: "res = [x, y]"
    by (cases res; cases "tl res") auto
  from assms(1) res have ge: "num_ge (similarity x) (similarity y)" by (simp add: descending_def)
  have "a \<noteq> b" using assms(5,6) by auto
  have "x = a"
  proof (rule ccontr)
    assume "x \<noteq> a"
    with assms(3) res have "y = a" by simp
    with assms(4) res \<open>a \<noteq> b\<close> have "x = b" by auto
    with ge \<open>y = a\<close> assms(5,6) show False by (simp add: num_ge_def)
  qed
  moreover from this assms(4) res \<open>a \<noteq> b\<close> have "y = b" by auto
  ultimately show ?thesis using res by simp
qed

text \<open>
  Claim C7. When a corpus-matching pass over \<open>N\<close> fonts completes, that is, when the
  promise of \<open>_recognize\<close> resolves, the list it resolves with has length \<open>N\<close> and is
  in descending order of similarity. In particular, in a corpus of two fonts of which
  one has averaged 100 and the other 0, the list is the font with 100 and then the font
  with 0.
\<close>

theorem recognize_ranked:
  assumes "r_promise (recognize_run E recognized sched) = Resolved res"
  shows "length res = length (fonts E)
       \<and> descending res
       \<and> (length (fonts E) = 2 \<and> i < 2 \<and> j < 2
            \<and> r_fonts (recognize_run E recognized sched) ! i = Comparing cs_i font_i
            \<and> c_promise cs_i = Resolved fin_i \<and> average fin_i = Num 100
            \<and> r_fonts (recognize_run E recognized sched) ! j = Comparing cs_j font_j
            \<and> c_promise cs_j = Resolved fin_j \<and> average fin_j = Num 0
          \<longrightarrow> res = [finalize_meta (fonts E ! i) fin_i font_i, finalize_meta (fonts E ! j) fin_j font_j])"
proof -
  let ?st = "recognize_run E recognized sched"
  have inv: "rinv E ?st" by (rule rinv_run)
  have inv2: "rinv2 E ?st" by (rule rinv2_run)
  from inv assms have r: "r_done ?st = length (fonts E)" "res = r_result ?st" "descending res"
    by (auto simp: rinv_def)
  from inv r have len: "length res = length (fonts E)" by (simp add: rinv_def)
  have fonts: "length (r_fonts ?st) = length (fonts E)" using inv by (simp add: rinv_def)
  have content: "set res = entries E (r_fonts ?st)" using inv2 r(2) by (simp add: rinv2_def)
  have scenario: "res = [finalize_meta (fonts E ! i) fin_i font_i, finalize_meta (fonts E ! j) fin_j font_j]"
    if h: "length (fonts E) = 2" "i < 2" "j < 2"
      "r_fonts ?st ! i = Comparing cs_i font_i" "c_promise cs_i = Resolved fin_i" "average fin_i = Num 100"
      "r_fonts ?st ! j = Comparing cs_j font_j" "c_promise cs_j = Resolved fin_j" "average fin_j = Num 0"
  proof (rule descending_two[OF r(3)])
    show "length res = 2" using len h(1) by simp
    show "finalize_meta (fonts E ! i) fin_i font_i \<in> set res"
      unfolding content entries_def using h(1,2,4,5) fonts by auto
    show "finalize_meta (fonts E ! j) fin_j font_j \<in> set res"
      unfolding content entries_def using h(1,3,7,8) fonts by auto
    show "similarity (finalize_meta (fonts E ! i) fin_i font_i) = Num 100"
      using h(6) by (simp add: finalize_meta_def Let_def)
    show "similarity (finalize_meta (fonts E ! j) fin_j font_j) = Num 0"
      using h(9) by (simp add: finalize_meta_def Let_def)
  qed
  from len r(3) scenario show ?thesis by blast
qed

text \<open>
  The failures that reject. In a \<open>_compare\<close>, once the comparators of a symbol that is
  being compared fail, the promise is rejected, and stays rejected whatever settles
  afterwards, so no per-symbol results are delivered. In \<open>_recognize\<close>, once the request
  of a font is rejected, or the comparators of a symbol of a font fail, the promise of the
  whole match is rejected and stays so: no ranked list is delivered.
\<close>

theorem fail_fast:
  "(map_of (c_pending (compare_run P (compare_start first second) sched1)) symbol = Some (g, g1)
      \<and> comparison_fails P g g1
     \<longrightarrow> (\<exists>e. c_promise (compare_run P (compare_start first second) (sched1 @ symbol # sched2)) = Rejected e))
   \<and> (i < length (fonts E) \<and> r_fonts (recognize_run E recognized evs1) ! i = Fetching
      \<and> isl (preparedFont E i)
     \<longrightarrow> (\<exists>e. r_promise (recognize_run E recognized (evs1 @ FontSettled i # evs2)) = Rejected e))
   \<and> (i < length (fonts E) \<and> r_fonts (recognize_run E recognized evs1) ! i = Comparing cs font
      \<and> map_of (c_pending cs) symbol' = Some (g', g1') \<and> comparison_fails (perceptions E) g' g1'
     \<longrightarrow> (\<exists>e. r_promise (recognize_run E recognized (evs1 @ SymbolSettled i symbol' # evs2)) = Rejected e))"
proof (intro conjI impI; (elim conjE)?)
  assume "map_of (c_pending (compare_run P (compare_start first second) sched1)) symbol = Some (g, g1)"
    "comparison_fails P g g1"
  then show "\<exists>e. c_promise (compare_run P (compare_start first second) (sched1 @ symbol # sched2)) = Rejected e"
    by (rule compare_fail_fast)
next
  let ?st = "recognize_run E recognized evs1"
  let ?st' = "recognize_step E (FontSettled i) ?st"
  assume h: "i < length (fonts E)" "r_fonts ?st ! i = Fetching" "isl (preparedFont E i)"
  have inv: "rinv E ?st" by (rule rinv_run)
  then have i: "i < length (r_fonts ?st)" using h(1) by (simp add: rinv_def)
  from h(3) obtain e where e: "preparedFont E i = Inl e" by (cases "preparedFont E i") auto
  have unfin: "\<not> finished (r_fonts ?st ! i)" using h(2) by (simp add: finished_def)
  have "\<And>res. r_promise ?st \<noteq> Resolved res"
    using inv i unfin by (rule unfinished_unresolved)
  from reject_rejected[OF this, of e] obtain e' where "reject e (r_promise ?st) = Rejected e'" by blast
  then have "r_promise ?st' = Rejected e'" using i h(2) e by (simp add: font_settled_def)
  from rejected_fold[OF rinv_step[OF inv] this, of evs2]
  show "\<exists>e. r_promise (recognize_run E recognized (evs1 @ FontSettled i # evs2)) = Rejected e"
    unfolding recognize_run_append by blast
next
  let ?st = "recognize_run E recognized evs1"
  let ?st' = "recognize_step E (SymbolSettled i symbol') ?st"
  let ?cs1 = "compare_settle (perceptions E) symbol' cs"
  assume h: "i < length (fonts E)" "r_fonts ?st ! i = Comparing cs font"
    "map_of (c_pending cs) symbol' = Some (g', g1')" "comparison_fails (perceptions E) g' g1'"
  have inv: "rinv E ?st" by (rule rinv_run)
  then have i: "i < length (r_fonts ?st)" using h(1) by (simp add: rinv_def)
  have c: "cinv cs" using inv i h(2) by (auto simp: rinv_def list_all_length font_inv_def)
  from compare_settle_failure[OF c h(3,4)] obtain e where e: "c_promise ?cs1 = Rejected e" by blast
  have unres: "\<And>fin. c_promise cs \<noteq> Resolved fin" using c h(3) by (rule cinv_pending_unresolved)
  have fonts': "r_fonts ?st' = (r_fonts ?st)[i := Comparing ?cs1 font]"
  proof (cases "c_promise cs")
    case Pending
    show ?thesis using symbol_settled_pending[OF i h(2) Pending, of E symbol'] e by simp
  next
    case (Resolved fin)
    with unres show ?thesis by blast
  next
    case (Rejected e0)
    then show ?thesis using symbol_settled_settled[OF i h(2), of E symbol'] by simp
  qed
  have "rinv2 E ?st'" using inv rinv2_run by (rule rinv2_step)
  moreover have "i < length (r_fonts ?st') \<and> failed (r_fonts ?st' ! i)"
    unfolding fonts' using i e by (simp add: failed_def)
  ultimately obtain e' where "r_promise ?st' = Rejected e'" unfolding rinv2_def by blast
  from rejected_fold[OF rinv_step[OF inv] this, of evs2]
  show "\<exists>e. r_promise (recognize_run E recognized (evs1 @ SymbolSettled i symbol' # evs2)) = Rejected e"
    unfolding recognize_run_append by blast
qed

subsection \<open>Example runs, evaluated\<close>

lemmas run_defs = recognize_run_def recognize_start_def font_settled_def symbol_settled_def
  symbolsToDomain_def truthy_def compare_start_def compare_settle_def compare_finalize_def
  promiseAll2_def resolve_def reject_def recognize_finalize_def finalize_meta_def average_def
  sort_by_similarity_def comparator_positive_def Let_def exact_match_def compared_domain_size_def
  compare_run_def failing_shape_def comparison_fails_def

text \<open>Scenario C with the second font finishing first: the list is still Font1 with 100
  and then Font2 with 0.\<close>

theorem recognize_ranked_witness:
  "r_promise (recognize_run scenario_C scenario_C_recognized
         [FontSettled 1, FontSettled 0, SymbolSettled 1 ''a'', SymbolSettled 0 ''a''])
     = Resolved [\<lparr>similarity = Num 100, font_name = ''Font1'', other = []\<rparr>,
                 \<lparr>similarity = Num 0, font_name = ''Font2'', other = []\<rparr>]
   \<and> length [\<lparr>similarity = Num 100, font_name = ''Font1'', other = []\<rparr>,
              \<lparr>similarity = Num 0, font_name = ''Font2'', other = []\<rparr>] = length (fonts scenario_C)
   \<and> descending [\<lparr>similarity = Num 100, font_name = ''Font1'', other = []\<rparr>,
                  \<lparr>similarity = Num 0, font_name = ''Font2'', other = []\<rparr>]
   \<and> average [(''a'', \<lparr>analytic = 100, shape = 100\<rparr>)] = Num 100
   \<and> average [(''a'', \<lparr>analytic = 0, shape = 0\<rparr>)] = Num 0"
proof -
  let ?sched = "[FontSettled 1, FontSettled 0, SymbolSettled 1 ''a'', SymbolSettled 0 ''a'']"
  let ?res = "[\<lparr>similarity = Num 100, font_name = ''Font1'', other = []\<rparr>,
               \<lparr>similarity = Num 0, font_name = ''Font2'', other = []\<rparr>]"
  let ?fin1 = "[(''a'', \<lparr>analytic = 100, shape = 100\<rparr>)]"
  let ?fin2 = "[(''a'', \<lparr>analytic = 0, shape = 0\<rparr>)]"
  let ?cs1 = "\<lparr>c_todo = 1, c_done = 1, c_result = ?fin1, c_pending = [], c_promise = Resolved ?fin1\<rparr>"
  let ?cs2 = "\<lparr>c_todo = 1, c_done = 1, c_result = ?fin2, c_pending = [], c_promise = Resolved ?fin2\<rparr>"
  let ?font1 = "\<lparr>meta = None, alpha = [(''a'', ''data:image/png;base64,AAAA'')]\<rparr>"
  let ?font2 = "\<lparr>meta = None, alpha = [(''a'', ''data:image/png;base64,BBBB'')]\<rparr>"
  have run: "r_promise (recognize_run scenario_C scenario_C_recognized ?sched) = Resolved ?res"
    by (simp add: run_defs scenario_C_def scenario_C_recognized_def)
  have two: "length (fonts scenario_C) = 2" by (simp add: scenario_C_def)
  have f1: "r_fonts (recognize_run scenario_C scenario_C_recognized ?sched) ! 0 = Comparing ?cs1 ?font1"
    by (simp add: run_defs scenario_C_def scenario_C_recognized_def)
  have f2: "r_fonts (recognize_run scenario_C scenario_C_recognized ?sched) ! 1 = Comparing ?cs2 ?font2"
    by (simp add: run_defs scenario_C_def scenario_C_recognized_def)
  have a1: "average ?fin1 = Num 100" by (simp add: average_def)
  have a2: "average ?fin2 = Num 0" by (simp add: average_def)
  have lt0: "(0::nat) < 2" and lt1: "(1::nat) < 2" by simp_all
  have c1: "c_promise ?cs1 = Resolved ?fin1" and c2: "c_promise ?cs2 = Resolved ?fin2" by simp_all
  note ranked = recognize_ranked [OF run, of 0 1 ?cs1 ?font1 ?fin1 ?cs2 ?font2 ?fin2]
  have len: "length ?res = length (fonts scenario_C)" using ranked by (rule conjunct1)
  have desc: "descending ?res" using ranked by (elim conjE)
  have "?res = [finalize_meta (fonts scenario_C ! 0) ?fin1 ?font1,
                finalize_meta (fonts scenario_C ! 1) ?fin2 ?font2]"
    using ranked by (elim conjE) (erule mp, intro conjI two lt0 lt1 f1 c1 a1 f2 c2 a2)
  with run len desc a1 a2 show ?thesis by (intro conjI)
qed

text \<open>A \<open>_compare\<close> whose ShapePerception cannot load the glyph; a corpus whose second font
  cannot be opened, after the first font has finished; and a corpus of one font whose
  only symbol cannot be compared.\<close>

theorem fail_fast_witness:
  "map_of (c_pending (compare_run failing_shape
       (compare_start [(''a'', ''data:image/png;base64,AAAA'')] [(''a'', ''data:image/png;base64,BBBB'')]) []))
     ''a'' = Some (''data:image/png;base64,AAAA'', ''data:image/png;base64,BBBB'')
   \<and> comparison_fails failing_shape ''data:image/png;base64,AAAA'' ''data:image/png;base64,BBBB''
   \<and> (\<exists>e. c_promise (compare_run failing_shape
       (compare_start [(''a'', ''data:image/png;base64,AAAA'')] [(''a'', ''data:image/png;base64,BBBB'')])
       ([] @ ''a'' # [])) = Rejected e)
   \<and> r_fonts (recognize_run missing_font scenario_C_recognized [FontSettled 0, SymbolSettled 0 ''a'']) ! 1 = Fetching
   \<and> isl (preparedFont missing_font 1)
   \<and> (\<exists>e. r_promise (recognize_run missing_font scenario_C_recognized
         ([FontSettled 0, SymbolSettled 0 ''a''] @ FontSettled 1 # [])) = Rejected e)
   \<and> comparison_fails (perceptions unloadable_glyph) ''data:image/png;base64,AAAA'' ''data:image/png;base64,AAAA''
   \<and> (\<exists>e. r_promise (recognize_run unloadable_glyph scenario_C_recognized
         ([FontSettled 0] @ SymbolSettled 0 ''a'' # [])) = Rejected e)"
proof -
  let ?A = "''data:image/png;base64,AAAA''" and ?B = "''data:image/png;base64,BBBB''"
  let ?cs = "\<lparr>c_todo = 1, c_done = 0, c_result = [], c_pending = [(''a'', ?A, ?A)], c_promise = Pending\<rparr>"
  let ?font = "\<lparr>meta = None, alpha = [(''a'', ?A)]\<rparr>"
  have p: "map_of (c_pending (compare_run failing_shape (compare_start [(''a'', ?A)] [(''a'', ?B)]) [])) ''a''
      = Some (?A, ?B)"
    by (simp add: run_defs)
  have cf: "comparison_fails failing_shape ?A ?B" by (simp add: run_defs)
  have one: "\<exists>e. c_promise (compare_run failing_shape (compare_start [(''a'', ?A)] [(''a'', ?B)])
       ([] @ ''a'' # [])) = Rejected e"
    using fail_fast [of failing_shape "[(''a'', ?A)]" "[(''a'', ?B)]" "[]" "''a''" ?A ?B "[]"] p cf
    by blast
  have fetching: "r_fonts (recognize_run missing_font scenario_C_recognized
      [FontSettled 0, SymbolSettled 0 ''a'']) ! 1 = Fetching"
    by (simp add: run_defs missing_font_def scenario_C_recognized_def)
  have missing: "isl (preparedFont missing_font 1)" by (simp add: missing_font_def)
  have n2: "1 < length (fonts missing_font)" by (simp add: missing_font_def)
  have two: "\<exists>e. r_promise (recognize_run missing_font scenario_C_recognized
         ([FontSettled 0, SymbolSettled 0 ''a''] @ FontSettled 1 # [])) = Rejected e"
    using fail_fast [where i = 1 and E = missing_font and recognized = scenario_C_recognized
        and ?evs1.0 = "[FontSettled 0, SymbolSettled 0 ''a'']" and ?evs2.0 = "[]"] n2 fetching missing
    by blast
  have comparing: "r_fonts (recognize_run unloadable_glyph scenario_C_recognized [FontSettled 0]) ! 0
      = Comparing ?cs ?font"
    by (simp add: run_defs unloadable_glyph_def scenario_C_recognized_def)
  have pending: "map_of (c_pending ?cs) ''a'' = Some (?A, ?A)" by simp
  have cf': "comparison_fails (perceptions unloadable_glyph) ?A ?A"
    by (simp add: run_defs unloadable_glyph_def)
  have n1: "0 < length (fonts unloadable_glyph)" by (simp add: unloadable_glyph_def)
  have three: "\<exists>e. r_promise (recognize_run unloadable_glyph scenario_C_recognized
         ([FontSettled 0] @ SymbolSettled 0 ''a'' # [])) = Rejected e"
    using fail_fast [where i = 0 and E = unloadable_glyph and recognized = scenario_C_recognized
        and ?evs1.0 = "[FontSettled 0]" and ?evs2.0 = "[]" and cs = ?cs and font = ?font
        and symbol' = "''a''" and g' = ?A and g1' = ?A] n1 comparing pending cf'
    by blast
  from p cf one fetching missing two cf' three show ?thesis by blast
qed

text \<open>
  Claim C2, which asks that each font's domain reduction work on a copy of its own of the
  recognized glyph set, so that one font's reduction never shrinks the alphabet another
  font is compared against. The code passes the one object \<open>symbols\<close> to
  \<open>_symbolsToDomain\<close> for every font. The text shows \<open>a\<close> and \<open>b\<close>; the font Narrow has
  \<open>a\<close>, the font Wide has \<open>a\<close> and \<open>b\<close>. Once the callback of Narrow has run, \<open>symbols\<close>
  has lost \<open>b\<close>, and Wide is compared on \<open>a\<close> alone and scores 100; when the file of Wide
  arrives first it is compared on both symbols, as a reduction against the untouched set
  gives, and scores 50.
\<close>

theorem shared_symbols_shrink:
  "map fst (r_symbols (recognize_run narrow_then_wide text_a_b [FontSettled 0])) = [''a'']
   \<and> compared_domain_size (recognize_run narrow_then_wide text_a_b [FontSettled 0, FontSettled 1]) 1 = Some 1
   \<and> compared_domain_size (recognize_run narrow_then_wide text_a_b [FontSettled 1, FontSettled 0]) 1 = Some 2
   \<and> map fst (fst (symbolsToDomain text_a_b
        [(''a'', ''data:image/png;base64,AAAA''), (''b'', ''data:image/png;base64,DDDD'')])) = [''a'', ''b'']
   \<and> r_promise (recognize_run narrow_then_wide text_a_b
         [FontSettled 0, FontSettled 1, SymbolSettled 0 ''a'', SymbolSettled 1 ''a''])
       = Resolved [\<lparr>similarity = Num 100, font_name = ''Wide'', other = []\<rparr>,
                   \<lparr>similarity = Num 0, font_name = ''Narrow'', other = []\<rparr>]
   \<and> r_promise (recognize_run narrow_then_wide text_a_b
         [FontSettled 1, FontSettled 0, SymbolSettled 0 ''a'', SymbolSettled 1 ''a'', SymbolSettled 1 ''b''])
       = Resolved [\<lparr>similarity = Num 50, font_name = ''Wide'', other = []\<rparr>,
                   \<lparr>similarity = Num 0, font_name = ''Narrow'', other = []\<rparr>]"
  by (simp add: run_defs narrow_then_wide_def text_a_b_def)

text \<open>
  Claim C5, which asks that the fraction passed to \<open>progress\<close> count the current font,
  so that the last call gets 1. The code passes \<open>done / todo\<close> before it increments
  \<open>done\<close>: in a pass over two fonts that completes, the calls get 0 and 1/2.
\<close>

theorem progress_fraction_stale:
  "map (\<lambda>(name, val, fraction). (name, fraction))
     (r_progress (recognize_run scenario_C scenario_C_recognized
         [FontSettled 0, FontSettled 1, SymbolSettled 0 ''a'', SymbolSettled 1 ''a'']))
     = [(''Font1'', 0), (''Font2'', 1 / 2)]
   \<and> r_promise (recognize_run scenario_C scenario_C_recognized
         [FontSettled 0, FontSettled 1, SymbolSettled 0 ''a'', SymbolSettled 1 ''a''])
     = Resolved [\<lparr>similarity = Num 100, font_name = ''Font1'', other = []\<rparr>,
                 \<lparr>similarity = Num 0, font_name = ''Font2'', other = []\<rparr>]"
  by (simp add: run_defs scenario_C_def scenario_C_recognized_def)

text \<open>In general the \<open>k\<close>-th call of \<open>progress\<close>, counting from 0, gets \<open>k / N\<close>.\<close>

lemma progress_fractions:
  assumes "hasProgress E"
  shows "map (\<lambda>(name, val, fraction). fraction) (r_progress (recognize_run E recognized sched)) =
           map (\<lambda>k. real k / real (length (fonts E))) [0..<r_done (recognize_run E recognized sched)]"
    and "r_done (recognize_run E recognized sched) \<le> length (fonts E)"
proof -
  have inv: "rinv E (recognize_run E recognized sched)" by (rule rinv_run)
  with assms show "map (\<lambda>(name, val, fraction). fraction) (r_progress (recognize_run E recognized sched)) =
           map (\<lambda>k. real k / real (length (fonts E))) [0..<r_done (recognize_run E recognized sched)]"
    by (simp add: rinv_def)
  have "length (filter finished (r_fonts (recognize_run E recognized sched)))
      \<le> length (r_fonts (recognize_run E recognized sched))" by simp
  with inv show "r_done (recognize_run E recognized sched) \<le> length (fonts E)"
    by (simp add: rinv_def)
qed

text \<open>Settling is not cancelling. After the promise of \<open>_recognize\<close> is rejected the
  callbacks of the other fonts still run, and \<open>progress\<close> is still called for a font
  that completes; the promise stays rejected and delivers no list.\<close>

lemma progress_after_rejection:
  "r_promise (recognize_run missing_font scenario_C_recognized
       [FontSettled 1, FontSettled 0, SymbolSettled 0 ''a''])
     = Rejected (Message ''Unable to open storage/fonts/Font2/data.json'')
   \<and> map fst (r_progress (recognize_run missing_font scenario_C_recognized
       [FontSettled 1, FontSettled 0, SymbolSettled 0 ''a''])) = [''Font1'']"
  by (simp add: run_defs missing_font_def scenario_C_recognized_def)

subsection \<open>A font whose request times out\<close>

text \<open>Scenario C when the request of Font2 never settles: whatever else happens, and in
  whatever order, the closure of \<open>_recognize\<close> is in one of three states, before the
  file of Font1 has arrived, while its symbol is compared, and after Font1 has finished.\<close>

lemma waiting_states:
  "recognize_run scenario_C scenario_C_recognized [] =
     \<lparr>r_symbols = [(''a'', ''data:image/png;base64,AAAA'')], r_done = 0, r_result = [], r_progress = [],
      r_fonts = [Fetching, Fetching], r_promise = Pending\<rparr>"
  "recognize_run scenario_C scenario_C_recognized [FontSettled 0] =
     \<lparr>r_symbols = [(''a'', ''data:image/png;base64,AAAA'')], r_done = 0, r_result = [], r_progress = [],
      r_fonts = [Comparing \<lparr>c_todo = 1, c_done = 0, c_result = [],
                   c_pending = [(''a'', ''data:image/png;base64,AAAA'', ''data:image/png;base64,AAAA'')],
                   c_promise = Pending\<rparr>
                  \<lparr>meta = None, alpha = [(''a'', ''data:image/png;base64,AAAA'')]\<rparr>, Fetching],
      r_promise = Pending\<rparr>"
  "recognize_run scenario_C scenario_C_recognized [FontSettled 0, SymbolSettled 0 ''a''] =
     \<lparr>r_symbols = [(''a'', ''data:image/png;base64,AAAA'')], r_done = 1,
      r_result = [\<lparr>similarity = Num 100, font_name = ''Font1'', other = []\<rparr>],
      r_progress = [(''Font1'', [(''a'', \<lparr>analytic = 100, shape = 100\<rparr>)], 0)],
      r_fonts = [Comparing \<lparr>c_todo = 1, c_done = 1, c_result = [(''a'', \<lparr>analytic = 100, shape = 100\<rparr>)],
                   c_pending = [], c_promise = Resolved [(''a'', \<lparr>analytic = 100, shape = 100\<rparr>)]\<rparr>
                  \<lparr>meta = None, alpha = [(''a'', ''data:image/png;base64,AAAA'')]\<rparr>, Fetching],
      r_promise = Pending\<rparr>"
  by (simp_all add: run_defs scenario_C_def scenario_C_recognized_def)

lemma waiting_step:
  assumes "st = recognize_run scenario_C scenario_C_recognized []
         \<or> st = recognize_run scenario_C scenario_C_recognized [FontSettled 0]
         \<or> st = recognize_run scenario_C scenario_C_recognized [FontSettled 0, SymbolSettled 0 ''a'']"
    and "ev \<noteq> FontSettled 1"
  shows "recognize_step scenario_C ev st = recognize_run scenario_C scenario_C_recognized []
         \<or> recognize_step scenario_C ev st = recognize_run scenario_C scenario_C_recognized [FontSettled 0]
         \<or> recognize_step scenario_C ev st =
              recognize_run scenario_C scenario_C_recognized [FontSettled 0, SymbolSettled 0 ''a'']"
proof (cases ev)
  case (FontSettled i)
  have "i = 0 \<or> i = 1 \<or> 2 \<le> i" by arith
  with assms(2) FontSettled consider "i = 0" | "2 \<le> i" by auto
  then show ?thesis
  proof cases
    case 1
    with assms(1) FontSettled show ?thesis
      unfolding waiting_states
      by (auto simp: font_settled_def symbolsToDomain_def truthy_def compare_start_def
            scenario_C_def Let_def)
  next
    case 2
    with assms(1) FontSettled show ?thesis
      unfolding waiting_states by (auto simp: font_settled_def)
  qed
next
  case (SymbolSettled i symbol)
  have "i = 0 \<or> i = 1 \<or> 2 \<le> i" by arith
  then consider "i = 0" "symbol = ''a''" | "i = 0" "symbol \<noteq> ''a''" | "i = 1" | "2 \<le> i"
    by (cases "symbol = ''a''") auto
  then show ?thesis
  proof cases
    case 1
    with assms(1) SymbolSettled show ?thesis
      unfolding waiting_states
      by (auto simp: symbol_settled_def compare_settle_def compare_finalize_def promiseAll2_def
            resolve_def reject_def recognize_finalize_def finalize_meta_def average_def
            sort_by_similarity_def exact_match_def scenario_C_def Let_def)
  next
    case 2
    with assms(1) SymbolSettled show ?thesis
      unfolding waiting_states
      by (auto simp: symbol_settled_def compare_settle_def Let_def)
  next
    case 3
    with assms(1) SymbolSettled show ?thesis
      unfolding waiting_states by (auto simp: symbol_settled_def)
  next
    case 4
    with assms(1) SymbolSettled show ?thesis
      unfolding waiting_states by (auto simp: symbol_settled_def)
  qed
qed

lemma waiting_run:
  "recognize_run scenario_C scenario_C_recognized (filter (\<lambda>ev. ev \<noteq> FontSettled 1) sched)
      = recognize_run scenario_C scenario_C_recognized []
   \<or> recognize_run scenario_C scenario_C_recognized (filter (\<lambda>ev. ev \<noteq> FontSettled 1) sched)
      = recognize_run scenario_C scenario_C_recognized [FontSettled 0]
   \<or> recognize_run scenario_C scenario_C_recognized (filter (\<lambda>ev. ev \<noteq> FontSettled 1) sched)
      = recognize_run scenario_C scenario_C_recognized [FontSettled 0, SymbolSettled 0 ''a'']"
proof (induction sched rule: rev_induct)
  case Nil
  show ?case by simp
next
  case (snoc ev sched)
  show ?case
  proof (cases "ev = FontSettled 1")
    case True
    with snoc show ?thesis by simp
  next
    case False
    have "recognize_run scenario_C scenario_C_recognized (filter (\<lambda>ev. ev \<noteq> FontSettled 1) (sched @ [ev]))
        = recognize_step scenario_C ev
            (recognize_run scenario_C scenario_C_recognized (filter (\<lambda>ev. ev \<noteq> FontSettled 1) sched))"
      using False by (simp add: recognize_run_def)
    with waiting_step[OF snoc False] show ?thesis by simp
  qed
qed

text \<open>
  Claim C9, which asks that the failure of any font's fetch reject the whole match. A
  request that exceeds \<open>fontRequestTimeout\<close> fails by the timeout of the request, for
  which \<open>_fetch\<close> sets no handler: the promises of \<open>_fetch\<close> and of \<open>prepareFont\<close>
  stay pending, the callback of that font never runs, and the match is never rejected.
  In scenario C with the request of Font2 timed out, the promise of \<open>_recognize\<close> is
  pending after every sequence of the other events.
\<close>

theorem fetch_timeout_hangs:
  "fetch parse url OnTimeout = Pending
   \<and> prepareFont parse toText url OnTimeout = Pending
   \<and> r_promise (recognize_run scenario_C scenario_C_recognized
        (filter (\<lambda>ev. ev \<noteq> FontSettled 1) sched)) = Pending"
proof -
  have "r_promise (recognize_run scenario_C scenario_C_recognized
        (filter (\<lambda>ev. ev \<noteq> FontSettled 1) sched)) = Pending"
    using waiting_run[of sched] by (auto simp: waiting_states)
  then show ?thesis by (simp add: fetch_def prepareFont_def)
qed

end
